theory Spec2Isabelle
  imports Complex_Main "HOL-Library.Sublist"
begin

chapter \<open>The model\<close>

section \<open>Python values, errors and the runtime environment\<close>

text \<open>
  The client of \<^verbatim>\<open>grandjury/api_client.py\<close> is dynamically typed, so the values it
  handles are one datatype. A Python \<^verbatim>\<open>float\<close> is the real number it denotes, or one of
  the three special values; a \<^verbatim>\<open>dict\<close> is the list of its items in insertion order.

  An instance of any other class is known by its class and by the builtin value it
  extends. Of the class, the code looks at the text of \<^verbatim>\<open>__module__\<close> when instances
  have that attribute, at whether they have a \<^verbatim>\<open>to_dict\<close> attribute, and at the text of
  \<^verbatim>\<open>type(data)\<close>; \<open>obj_id\<close> tells two objects of a class apart. The value extended is
  a list for an instance of a subclass of \<^verbatim>\<open>list\<close>, a dictionary, a text or a path
  for a subclass of \<^verbatim>\<open>dict\<close>, \<^verbatim>\<open>str\<close> or \<^verbatim>\<open>Path\<close>, and \<^verbatim>\<open>None\<close> for an object that
  extends none of them. Instances of the builtin types themselves have no
  \<^verbatim>\<open>__module__\<close> and no \<^verbatim>\<open>to_dict\<close>.
\<close>

datatype pyfloat = Finite real | PosInf | NegInf | NaN

record pyclass =
  obj_module :: "string option"
  obj_has_to_dict :: bool
  obj_type :: string
  obj_id :: nat

datatype pyval =
    PNone
  | PBool bool
  | PInt int
  | PFloat pyfloat
  | PStr string
  | PList "pyval list"
  | PDict "(pyval \<times> pyval) list"
  | PPath string
  | PObject pyclass pyval

text \<open>
  Every \<^verbatim>\<open>raise\<close> of the source and every exception of a library call is a value.
  \<open>LibraryError\<close> stands for whatever an external call (the transport, a file read, a
  dataframe library) raises.
\<close>

datatype pyerror =
    Exception string
  | ValueError string
  | ImportError string
  | AttributeError string
  | OverflowError string
  | CsvError string
  | LibraryError string

subsection \<open>String methods\<close>

text \<open>\<^verbatim>\<open>s.rstrip('/')\<close>, \<^verbatim>\<open>s.lstrip('/')\<close> and \<^verbatim>\<open>s.endswith(t)\<close> for a one-character strip set.\<close>

definition lstrip :: "char \<Rightarrow> string \<Rightarrow> string" where
  "lstrip c s = dropWhile (\<lambda>x. x = c) s"

definition rstrip :: "char \<Rightarrow> string \<Rightarrow> string" where
  "rstrip c s = rev (dropWhile (\<lambda>x. x = c) (rev s))"

definition endswith :: "string \<Rightarrow> string \<Rightarrow> bool" where
  "endswith s t = (length t \<le> length s \<and> drop (length s - length t) s = t)"

text \<open>\<^verbatim>\<open>str(n)\<close> for an integer: the decimal digits, with a minus sign below zero.\<close>

definition digit_char :: "nat \<Rightarrow> char" where
  "digit_char d = char_of (48 + d)"

function str_nat :: "nat \<Rightarrow> string" where
  "str_nat n = (if n < 10 then [digit_char n] else str_nat (n div 10) @ [digit_char (n mod 10)])"
  by pat_completeness auto
termination
  by (relation "measure id") auto

declare str_nat.simps [simp del]

definition str_int :: "int \<Rightarrow> string" where
  "str_int i = (if i < 0 then CHR ''-'' # str_nat (nat (- i)) else str_nat (nat i))"

subsection \<open>The HTTP transport\<close>

text \<open>
  \<^verbatim>\<open>requests.post(url, json=payload, headers=headers)\<close> sends the payload itself,
  \<^verbatim>\<open>requests.post(url, data=json_data, headers=headers)\<close> the text that msgspec
  encoded. The response object carries the status, the body text, and what its
  \<^verbatim>\<open>json()\<close> method returns or raises.
\<close>

datatype http_body = JsonBody pyval | DataBody string

record http_request =
  url :: string
  body :: http_body
  headers :: "(string \<times> string) list"

record response =
  status_code :: int
  response_text :: string
  response_json :: "pyerror + pyval"

subsection \<open>The clock\<close>

text \<open>
  A naive \<^verbatim>\<open>datetime\<close>, as \<^verbatim>\<open>datetime.now()\<close> returns it. Years run from 1 to 9999.
\<close>

record datetime =
  year :: int
  month :: int
  day :: int
  hour :: int
  minute :: int
  second :: int
  microsecond :: int

definition is_leap :: "int \<Rightarrow> bool" where
  "is_leap y = (y mod 4 = 0 \<and> (y mod 100 \<noteq> 0 \<or> y mod 400 = 0))"

definition days_in_month :: "int \<Rightarrow> int \<Rightarrow> int" where
  "days_in_month y m =
     (if m = 2 then (if is_leap y then 29 else 28)
      else if m = 4 \<or> m = 6 \<or> m = 9 \<or> m = 11 then 30 else 31)"

definition valid_datetime :: "datetime \<Rightarrow> bool" where
  "valid_datetime d =
     (1 \<le> year d \<and> year d \<le> 9999 \<and> 1 \<le> month d \<and> month d \<le> 12
      \<and> 1 \<le> day d \<and> day d \<le> days_in_month (year d) (month d)
      \<and> 0 \<le> hour d \<and> hour d < 24 \<and> 0 \<le> minute d \<and> minute d < 60
      \<and> 0 \<le> second d \<and> second d < 60
      \<and> 0 \<le> microsecond d \<and> microsecond d < 1000000)"

text \<open>
  \<^verbatim>\<open>dt - timedelta(hours=1)\<close>. The interpreter subtracts 3600 from the seconds and
  carries the overflow upwards, each pair by floor division, then repairs a day of 0
  by stepping to the last day of the month before; a year below 1 is an
  \<^verbatim>\<open>OverflowError\<close>.
\<close>

definition normalize_pair :: "int \<Rightarrow> int \<Rightarrow> int \<Rightarrow> int \<times> int" where
  "normalize_pair hi lo factor = (hi + lo div factor, lo mod factor)"

definition normalize_date :: "int \<Rightarrow> int \<Rightarrow> int \<Rightarrow> pyerror + int \<times> int \<times> int" where
  "normalize_date y m d =
     (let (y', m', d') =
            (if d = 0 then
               (if m - 1 > 0 then (y, m - 1, days_in_month y (m - 1)) else (y - 1, 12, 31))
             else (y, m, d))
      in if 1 \<le> y' \<and> y' \<le> 9999 then Inr (y', m', d')
         else Inl (OverflowError ''date value out of range''))"

definition sub_one_hour :: "datetime \<Rightarrow> pyerror + datetime" where
  "sub_one_hour dt =
     (let (mi, s) = normalize_pair (minute dt) (second dt - 3600) 60;
          (h, mi') = normalize_pair (hour dt) mi 60;
          (d, h') = normalize_pair (day dt) h 24
      in case normalize_date (year dt) (month dt) d of
           Inl e \<Rightarrow> Inl e
         | Inr (y', m', d') \<Rightarrow>
             Inr \<lparr>year = y', month = m', day = d', hour = h', minute = mi', second = s,
                  microsecond = microsecond dt\<rparr>)"

text \<open>
  \<^verbatim>\<open>dt.isoformat()\<close>: \<^verbatim>\<open>YYYY-MM-DDTHH:MM:SS\<close>, followed by \<^verbatim>\<open>.ffffff\<close> when the
  microseconds are not zero. Each field is padded with zeros to its width.
\<close>

definition zero_pad :: "nat \<Rightarrow> int \<Rightarrow> string" where
  "zero_pad w i = (let s = str_int i in replicate (w - length s) (CHR ''0'') @ s)"

definition isoformat :: "datetime \<Rightarrow> string" where
  "isoformat dt =
     zero_pad 4 (year dt) @ ''-'' @ zero_pad 2 (month dt) @ ''-'' @ zero_pad 2 (day dt)
     @ ''T'' @ zero_pad 2 (hour dt) @ '':'' @ zero_pad 2 (minute dt) @ '':'' @ zero_pad 2 (second dt)
     @ (if microsecond dt \<noteq> 0 then ''.'' @ zero_pad 6 (microsecond dt) else [])"

text \<open>
  The place of a datetime on the time line, in microseconds since the start of
  year 1 of the proleptic Gregorian calendar: days before the year, days before the
  month, the day, and the time of day.
\<close>

definition days_before_year :: "int \<Rightarrow> int" where
  "days_before_year y = (y - 1) * 365 + (y - 1) div 4 - (y - 1) div 100 + (y - 1) div 400"

definition days_before_month :: "int \<Rightarrow> int \<Rightarrow> int" where
  "days_before_month y m =
     [0, 31, 59, 90, 120, 151, 181, 212, 243, 273, 304, 334] ! nat (m - 1)
     + (if m > 2 \<and> is_leap y then 1 else 0)"

definition toordinal :: "datetime \<Rightarrow> int" where
  "toordinal d = days_before_year (year d) + days_before_month (year d) (month d) + day d"

definition microseconds_of :: "datetime \<Rightarrow> int" where
  "microseconds_of d =
     (((toordinal d * 24 + hour d) * 60 + minute d) * 60 + second d) * 1000000 + microsecond d"

subsection \<open>Rows of a dataframe\<close>

text \<open>
  A value in a row that pandas hands back is known by three things: what
  \<^verbatim>\<open>pd.isna(v)\<close> says of it (or raises), whether it has an \<^verbatim>\<open>item\<close> method and what
  that returns (a numpy scalar does), and the value itself.
\<close>

datatype cell = Cell (cell_isna: "pyerror + bool") (cell_item: "pyval option") (cell_value: pyval)

subsection \<open>The runtime\<close>

text \<open>
  The runtime the module is imported into: which optional libraries are installed
  (the module-level flags), the clock, the builtins \<^verbatim>\<open>int\<close> and \<^verbatim>\<open>float\<close> on text
  (\<open>None\<close> is their \<^verbatim>\<open>ValueError\<close>), and the calls that leave the repository.
  \<open>open_text\<close> is the text of a file opened with \<^verbatim>\<open>newline=''\<close> and decoded as UTF-8,
  line ends untranslated. What a library call gives for an object is the library's
  business: \<open>to_dicts\<close> is \<^verbatim>\<open>df.to_dicts()\<close>, \<open>where_notna_records\<close> is
  \<^verbatim>\<open>df.where(pd.notna(df), None).to_dict('records')\<close>, \<open>to_dict_records\<close> is
  \<^verbatim>\<open>df.to_dict('records')\<close>, and \<open>pq_read_table_to_pylist\<close> is
  \<^verbatim>\<open>pq.read_table(file_path).to_pylist()\<close>. The two that the code returns as they are
  may be any value.
\<close>

record runtime =
  HAS_PANDAS :: bool
  HAS_POLARS :: bool
  HAS_PYARROW :: bool
  HAS_MSGSPEC :: bool
  msgspec_encode :: "pyval \<Rightarrow> pyerror + string"
  requests_post :: "http_request \<Rightarrow> pyerror + response"
  datetime_now :: datetime
  py_int :: "string \<Rightarrow> int option"
  py_float :: "string \<Rightarrow> pyfloat option"
  open_text :: "string \<Rightarrow> pyerror + string"
  pd_read_csv :: "string \<Rightarrow> pyerror + pyval"
  pd_read_parquet :: "string \<Rightarrow> pyerror + pyval"
  pq_read_table_to_pylist :: "string \<Rightarrow> pyerror + pyval"
  to_dicts :: "pyval \<Rightarrow> pyerror + pyval"
  where_notna_records :: "pyval \<Rightarrow> pyerror + (pyval \<times> cell) list list"
  to_dict_records :: "pyval \<Rightarrow> pyerror + (pyval \<times> cell) list list"

section \<open>The client\<close>

record client =
  api_key :: "string option"
  base_url :: string

definition API_BASE_URL :: string where
  "API_BASE_URL = ''https://grandjury-server.onrender.com/api/v1''"

definition GrandJuryClient_init :: "string option \<Rightarrow> string \<Rightarrow> client" where
  "GrandJuryClient_init key base =
     (let stripped = rstrip (CHR ''/'') base
      in \<lparr>api_key = key,
          base_url = (if \<not> endswith stripped ''/api/v1'' then stripped @ ''/api/v1'' else stripped)\<rparr>)"

text \<open>\<^verbatim>\<open>if self.api_key:\<close> is false for \<^verbatim>\<open>None\<close> and for the empty string.\<close>

definition get_headers :: "client \<Rightarrow> (string \<times> string) list" where
  "get_headers self =
     (''Content-Type'', ''application/json'') #
     (case api_key self of
        None \<Rightarrow> []
      | Some k \<Rightarrow> if k = [] then [] else [(''Authorization'', ''Bearer '' @ k)])"

text \<open>Lines 48 to 56 of \<^verbatim>\<open>_make_request\<close>: build the request and post it.\<close>

definition post_request :: "runtime \<Rightarrow> client \<Rightarrow> string \<Rightarrow> pyval \<Rightarrow> pyerror + response" where
  "post_request E self endpoint payload =
     (let u = base_url self @ ''/'' @ lstrip (CHR ''/'') endpoint;
          hs = get_headers self
      in if HAS_MSGSPEC E then
           (case msgspec_encode E payload of
              Inl e \<Rightarrow> Inl e
            | Inr json_data \<Rightarrow> requests_post E \<lparr>url = u, body = DataBody json_data, headers = hs\<rparr>)
         else requests_post E \<lparr>url = u, body = JsonBody payload, headers = hs\<rparr>)"

text \<open>Lines 58 to 61: a 200 gives the decoded body, anything else raises.\<close>

definition api_error_message :: "int \<Rightarrow> string \<Rightarrow> string" where
  "api_error_message status body_text = ''API Error ('' @ str_int status @ ''): '' @ body_text"

definition make_request :: "runtime \<Rightarrow> client \<Rightarrow> string \<Rightarrow> pyval \<Rightarrow> pyerror + pyval" where
  "make_request E self endpoint payload =
     (case post_request E self endpoint payload of
        Inl e \<Rightarrow> Inl e
      | Inr r \<Rightarrow>
          if status_code r = 200 then response_json r
          else Inl (Exception (api_error_message (status_code r) (response_text r))))"

section \<open>The input normalizer\<close>

subsection \<open>Text and dictionary operations\<close>

text \<open>
  \<^verbatim>\<open>s.lower()\<close>. Characters are bytes here, and only the ASCII letters change; no
  character outside ASCII lowers to a letter of \<^verbatim>\<open>true\<close>, \<^verbatim>\<open>false\<close> or \<^verbatim>\<open>none\<close>.
\<close>

definition lower_char :: "char \<Rightarrow> char" where
  "lower_char c = (let n = (of_char c :: nat) in if 65 \<le> n \<and> n \<le> 90 then char_of (n + 32) else c)"

definition py_lower :: "string \<Rightarrow> string" where
  "py_lower s = map lower_char s"

text \<open>\<^verbatim>\<open>d[k] = v\<close>: a key already present keeps its place.\<close>

fun dict_set :: "(pyval \<times> pyval) list \<Rightarrow> pyval \<Rightarrow> pyval \<Rightarrow> (pyval \<times> pyval) list" where
  "dict_set [] k v = [(k, v)]"
| "dict_set ((k', v') # kvs) k v = (if k' = k then (k', v) # kvs else (k', v') # dict_set kvs k v)"

subsection \<open>Paths\<close>

text \<open>
  \<^verbatim>\<open>Path(data).suffix\<close> on a POSIX path: the name is the last component that is neither
  empty nor a single dot, and the suffix starts at the last dot of the name unless
  that dot is its first or its last character.
\<close>

fun split_on :: "char \<Rightarrow> string \<Rightarrow> string list" where
  "split_on sep [] = [[]]"
| "split_on sep (c # cs) =
     (if c = sep then [] # split_on sep cs
      else (case split_on sep cs of [] \<Rightarrow> [[c]] | w # ws \<Rightarrow> (c # w) # ws))"

definition path_name :: "string \<Rightarrow> string" where
  "path_name p =
     (case rev (filter (\<lambda>x. x \<noteq> [] \<and> x \<noteq> ''.'') (split_on (CHR ''/'') p)) of
        [] \<Rightarrow> []
      | n # _ \<Rightarrow> n)"

definition path_suffix :: "string \<Rightarrow> string" where
  "path_suffix p =
     (let n = path_name p;
          after = takeWhile (\<lambda>c. c \<noteq> CHR ''.'') (rev n)
      in if CHR ''.'' \<in> set n \<and> after \<noteq> [] \<and> length after + 1 < length n
         then drop (length n - length after - 1) n else [])"

subsection \<open>The CSV reader of the standard library\<close>

text \<open>
  \<^verbatim>\<open>csv.reader\<close> in its default dialect: comma, double quote, doubled quotes inside a
  quoted field, not strict, no escape character. The reader is fed one line at a
  time and then the end-of-line mark (\<open>None\<close> below); the six states are the ones it
  can reach in this dialect.
\<close>

datatype parser_state =
  START_RECORD | START_FIELD | IN_FIELD | IN_QUOTED_FIELD | QUOTE_IN_QUOTED_FIELD | EAT_CRNL

record reader =
  reader_state :: parser_state
  reader_field :: string
  reader_fields :: "string list"

definition field_limit :: nat where
  "field_limit = 131072"

definition is_newline :: "char \<Rightarrow> bool" where
  "is_newline c = (c = CHR 0x0A \<or> c = CHR 0x0D)"

definition parse_reset :: reader where
  "parse_reset = \<lparr>reader_state = START_RECORD, reader_field = [], reader_fields = []\<rparr>"

definition parse_add_char :: "reader \<Rightarrow> char \<Rightarrow> parser_state \<Rightarrow> pyerror + reader" where
  "parse_add_char r c next_state =
     (if field_limit \<le> length (reader_field r)
      then Inl (CsvError ''field larger than field limit (131072)'')
      else Inr (r\<lparr>reader_field := reader_field r @ [c], reader_state := next_state\<rparr>))"

definition parse_save_field :: "reader \<Rightarrow> parser_state \<Rightarrow> reader" where
  "parse_save_field r next_state =
     r\<lparr>reader_fields := reader_fields r @ [reader_field r], reader_field := [],
       reader_state := next_state\<rparr>"

definition start_field :: "reader \<Rightarrow> char option \<Rightarrow> pyerror + reader" where
  "start_field r c =
     (case c of
        None \<Rightarrow> Inr (parse_save_field r START_RECORD)
      | Some ch \<Rightarrow>
          if is_newline ch then Inr (parse_save_field r EAT_CRNL)
          else if ch = CHR 0x22 then Inr (r\<lparr>reader_state := IN_QUOTED_FIELD\<rparr>)
          else if ch = CHR '','' then Inr (parse_save_field r START_FIELD)
          else parse_add_char r ch IN_FIELD)"

definition parse_process_char :: "reader \<Rightarrow> char option \<Rightarrow> pyerror + reader" where
  "parse_process_char r c =
     (case reader_state r of
        START_RECORD \<Rightarrow>
          (case c of
             None \<Rightarrow> Inr r
           | Some ch \<Rightarrow>
               if is_newline ch then Inr (r\<lparr>reader_state := EAT_CRNL\<rparr>)
               else start_field r c)
      | START_FIELD \<Rightarrow> start_field r c
      | IN_FIELD \<Rightarrow>
          (case c of
             None \<Rightarrow> Inr (parse_save_field r START_RECORD)
           | Some ch \<Rightarrow>
               if is_newline ch then Inr (parse_save_field r EAT_CRNL)
               else if ch = CHR '','' then Inr (parse_save_field r START_FIELD)
               else parse_add_char r ch IN_FIELD)
      | IN_QUOTED_FIELD \<Rightarrow>
          (case c of
             None \<Rightarrow> Inr r
           | Some ch \<Rightarrow>
               if ch = CHR 0x22 then Inr (r\<lparr>reader_state := QUOTE_IN_QUOTED_FIELD\<rparr>)
               else parse_add_char r ch IN_QUOTED_FIELD)
      | QUOTE_IN_QUOTED_FIELD \<Rightarrow>
          (case c of
             None \<Rightarrow> Inr (parse_save_field r START_RECORD)
           | Some ch \<Rightarrow>
               if ch = CHR 0x22 then parse_add_char r ch IN_QUOTED_FIELD
               else if ch = CHR '','' then Inr (parse_save_field r START_FIELD)
               else if is_newline ch then Inr (parse_save_field r EAT_CRNL)
               else parse_add_char r ch IN_FIELD)
      | EAT_CRNL \<Rightarrow>
          (case c of
             None \<Rightarrow> Inr (r\<lparr>reader_state := START_RECORD\<rparr>)
           | Some ch \<Rightarrow>
               if is_newline ch then Inr r
               else Inl (CsvError ''new-line character seen in unquoted field'')))"

fun parse_chars :: "reader \<Rightarrow> string \<Rightarrow> pyerror + reader" where
  "parse_chars r [] = parse_process_char r None"
| "parse_chars r (c # cs) =
     (case parse_process_char r (Some c) of
        Inl e \<Rightarrow> Inl e
      | Inr r' \<Rightarrow> parse_chars r' cs)"

text \<open>
  The lines a text file opened with \<^verbatim>\<open>newline=''\<close> iterates over: each ends after
  \<^verbatim>\<open>\n\<close>, \<^verbatim>\<open>\r\n\<close> or \<^verbatim>\<open>\r\<close> and keeps its ending.
\<close>

fun file_lines :: "string \<Rightarrow> string \<Rightarrow> string list" where
  "file_lines cur [] = (if cur = [] then [] else [cur])"
| "file_lines cur (c # cs) =
     (if c = CHR 0x0A then (cur @ [c]) # file_lines [] cs
      else if c = CHR 0x0D then
        (case cs of
           [] \<Rightarrow> [cur @ [c]]
         | c' # cs' \<Rightarrow>
             if c' = CHR 0x0A then (cur @ [c, c']) # file_lines [] cs'
             else (cur @ [c]) # file_lines [] cs)
      else file_lines (cur @ [c]) cs)"

text \<open>
  One call of the reader's \<^verbatim>\<open>__next__\<close>, from the lines still unread: lines are
  consumed until a record is complete; at the end of the input a record still open is
  returned, and otherwise the iteration stops (\<open>None\<close>).
\<close>

fun read_record :: "reader \<Rightarrow> string list \<Rightarrow> pyerror + (string list \<times> string list) option" where
  "read_record r [] =
     (if reader_field r \<noteq> [] \<or> reader_state r = IN_QUOTED_FIELD
      then Inr (Some (reader_fields r @ [reader_field r], []))
      else Inr None)"
| "read_record r (l # ls) =
     (case parse_chars r l of
        Inl e \<Rightarrow> Inl e
      | Inr r' \<Rightarrow>
          if reader_state r' \<noteq> START_RECORD then read_record r' ls
          else Inr (Some (reader_fields r', ls)))"

definition reader_next :: "string list \<Rightarrow> pyerror + (string list \<times> string list) option" where
  "reader_next ls = read_record parse_reset ls"

lemma read_record_rest:
  "read_record r ls = Inr (Some (row, rest)) \<Longrightarrow> length rest \<le> length ls"
proof (induction ls arbitrary: r)
  case Nil
  then show ?case by (simp split: if_splits)
next
  case (Cons l ls)
  then show ?case by (fastforce split: sum.splits if_splits)
qed

lemma reader_next_shorter:
  "reader_next ls = Inr (Some (row, rest)) \<Longrightarrow> length rest < length ls"
proof (cases ls)
  case Nil
  assume "reader_next ls = Inr (Some (row, rest))"
  with Nil show ?thesis by (simp add: reader_next_def parse_reset_def)
next
  case (Cons l ls')
  assume a: "reader_next ls = Inr (Some (row, rest))"
  show ?thesis
  proof (cases "parse_chars parse_reset l")
    case (Inl e)
    with a Cons show ?thesis by (simp add: reader_next_def)
  next
    case (Inr r')
    show ?thesis
    proof (cases "reader_state r' = START_RECORD")
      case True
      with a Cons Inr show ?thesis by (simp add: reader_next_def)
    next
      case False
      with a Cons Inr have "read_record r' ls' = Inr (Some (row, rest))"
        by (simp add: reader_next_def)
      then have "length rest \<le> length ls'" by (rule read_record_rest)
      with Cons show ?thesis by simp
    qed
  qed
qed

subsection \<open>The dictionary reader\<close>

text \<open>
  \<^verbatim>\<open>csv.DictReader\<close>. The first row the reader gives is the header. Each later call
  skips the rows that are empty lists, and builds the row's dictionary: keys beyond
  the row get \<^verbatim>\<open>None\<close>, values beyond the header go as a list under the key \<^verbatim>\<open>None\<close>.
\<close>

function next_nonblank :: "string list \<Rightarrow> pyerror + (string list \<times> string list) option" where
  "next_nonblank ls =
     (case reader_next ls of
        Inl e \<Rightarrow> Inl e
      | Inr None \<Rightarrow> Inr None
      | Inr (Some (row, rest)) \<Rightarrow> if row = [] then next_nonblank rest else Inr (Some (row, rest)))"
  by pat_completeness auto
termination
  by (relation "measure length") (auto dest: reader_next_shorter)

declare next_nonblank.simps [simp del]

definition row_dict :: "string list \<Rightarrow> string list \<Rightarrow> (pyval \<times> pyval) list" where
  "row_dict fieldnames row =
     (let d = foldl (\<lambda>d (k, v). dict_set d (PStr k) (PStr v)) [] (zip fieldnames row);
          lf = length fieldnames;
          lr = length row
      in if lf < lr then dict_set d PNone (PList (map PStr (drop lf row)))
         else if lf > lr then foldl (\<lambda>d k. dict_set d (PStr k) PNone) d (drop lr fieldnames)
         else d)"

definition DictReader_next ::
    "string list \<Rightarrow> string list \<Rightarrow> pyerror + ((pyval \<times> pyval) list \<times> string list) option" where
  "DictReader_next fieldnames ls =
     (case next_nonblank ls of
        Inl e \<Rightarrow> Inl e
      | Inr None \<Rightarrow> Inr None
      | Inr (Some (row, rest)) \<Rightarrow> Inr (Some (row_dict fieldnames row, rest)))"

lemma next_nonblank_shorter:
  "next_nonblank ls = Inr (Some (row, rest)) \<Longrightarrow> length rest < length ls"
proof (induction ls rule: next_nonblank.induct)
  case (1 ls)
  from "1.prems" obtain row' rest' where n: "reader_next ls = Inr (Some (row', rest'))"
    by (subst (asm) next_nonblank.simps) (auto split: sum.splits option.splits)
  then have less: "length rest' < length ls" by (rule reader_next_shorter)
  show ?case
  proof (cases "row' = []")
    case True
    with "1.prems" n have "next_nonblank rest' = Inr (Some (row, rest))"
      by (subst (asm) next_nonblank.simps) simp
    with "1.IH" n True have "length rest < length rest'" by simp
    with less show ?thesis by simp
  next
    case False
    with "1.prems" n have "rest = rest'"
      by (subst (asm) next_nonblank.simps) simp
    with less show ?thesis by simp
  qed
qed

lemma DictReader_next_shorter:
  "DictReader_next fieldnames ls = Inr (Some (d, rest)) \<Longrightarrow> length rest < length ls"
  by (auto simp: DictReader_next_def split: sum.splits option.splits dest: next_nonblank_shorter)

subsection \<open>Reading a CSV file without pandas\<close>

text \<open>Lines 109 to 121 of \<^verbatim>\<open>_parse_csv\<close>: the value stored for one cell.\<close>

definition coerce_cell :: "runtime \<Rightarrow> string \<Rightarrow> pyval" where
  "coerce_cell E v =
     (if py_lower v \<in> set [''true'', ''false''] then PBool (py_lower v = ''true'')
      else if py_lower v = ''none'' \<or> v = [] then PNone
      else if CHR ''.'' \<in> set v then
        (case py_float E v of Some x \<Rightarrow> PFloat x | None \<Rightarrow> PStr v)
      else
        (case py_int E v of Some i \<Rightarrow> PInt i | None \<Rightarrow> PStr v))"

text \<open>
  The inner loop over \<^verbatim>\<open>row.items()\<close>. A value that is not text (the \<^verbatim>\<open>None\<close> of a
  short row, the list of a long one) has no \<^verbatim>\<open>lower\<close>; the message is the
  interpreter's, with its quotes.
\<close>

definition quoted :: "string \<Rightarrow> string" where
  "quoted s = CHR 0x27 # s @ [CHR 0x27]"

definition no_attribute :: "string \<Rightarrow> string \<Rightarrow> string" where
  "no_attribute type_name attr = quoted type_name @ '' object has no attribute '' @ quoted attr"

fun process_items :: "runtime \<Rightarrow> (pyval \<times> pyval) list \<Rightarrow> (pyval \<times> pyval) list
    \<Rightarrow> pyerror + (pyval \<times> pyval) list" where
  "process_items E processed_row [] = Inr processed_row"
| "process_items E processed_row ((k, v) # items) =
     (case v of
        PStr t \<Rightarrow> process_items E (dict_set processed_row k (coerce_cell E t)) items
      | PNone \<Rightarrow> Inl (AttributeError (no_attribute ''NoneType'' ''lower''))
      | _ \<Rightarrow> Inl (AttributeError (no_attribute ''list'' ''lower'')))"

text \<open>The outer loop over the reader: rows are read and processed one after the other.\<close>

function process_rows :: "runtime \<Rightarrow> string list \<Rightarrow> string list \<Rightarrow> pyerror + pyval list" where
  "process_rows E fieldnames ls =
     (case DictReader_next fieldnames ls of
        Inl e \<Rightarrow> Inl e
      | Inr None \<Rightarrow> Inr []
      | Inr (Some (row, rest)) \<Rightarrow>
          (case process_items E [] row of
             Inl e \<Rightarrow> Inl e
           | Inr processed_row \<Rightarrow>
               (case process_rows E fieldnames rest of
                  Inl e \<Rightarrow> Inl e
                | Inr records \<Rightarrow> Inr (PDict processed_row # records))))"
  by pat_completeness auto
termination
  by (relation "measure (\<lambda>(E, fieldnames, ls). length ls)") (auto dest: DictReader_next_shorter)

declare process_rows.simps [simp del]

definition read_csv_text :: "runtime \<Rightarrow> string \<Rightarrow> pyerror + pyval list" where
  "read_csv_text E content =
     (case reader_next (file_lines [] content) of
        Inl e \<Rightarrow> Inl e
      | Inr None \<Rightarrow> Inr []
      | Inr (Some (fieldnames, rest)) \<Rightarrow> process_rows E fieldnames rest)"

subsection \<open>Dataframes\<close>

fun convert_record :: "runtime \<Rightarrow> (pyval \<times> pyval) list \<Rightarrow> (pyval \<times> cell) list
    \<Rightarrow> pyerror + (pyval \<times> pyval) list" where
  "convert_record E converted_record [] = Inr converted_record"
| "convert_record E converted_record ((k, v) # items) =
     (case (if HAS_PANDAS E then cell_isna v else Inr False) of
        Inl e \<Rightarrow> Inl e
      | Inr na \<Rightarrow>
          convert_record E
            (dict_set converted_record k
               (if na then PNone
                else (case cell_item v of Some x \<Rightarrow> x | None \<Rightarrow> cell_value v)))
            items)"

fun convert_records :: "runtime \<Rightarrow> (pyval \<times> cell) list list \<Rightarrow> pyerror + pyval list" where
  "convert_records E [] = Inr []"
| "convert_records E (r # records) =
     (case convert_record E [] r of
        Inl e \<Rightarrow> Inl e
      | Inr converted_record \<Rightarrow>
          (case convert_records E records of
             Inl e \<Rightarrow> Inl e
           | Inr converted_records \<Rightarrow> Inr (PDict converted_record # converted_records)))"

definition pandas_to_records :: "runtime \<Rightarrow> pyval \<Rightarrow> pyerror + pyval" where
  "pandas_to_records E df =
     (case (if HAS_PANDAS E then where_notna_records E df else to_dict_records E df) of
        Inl e \<Rightarrow> Inl e
      | Inr records \<Rightarrow>
          (case convert_records E records of
             Inl e \<Rightarrow> Inl e
           | Inr converted_records \<Rightarrow> Inr (PList converted_records)))"

definition parse_pandas :: "runtime \<Rightarrow> pyval \<Rightarrow> pyerror + pyval" where
  "parse_pandas E df = pandas_to_records E df"

definition parse_polars :: "runtime \<Rightarrow> pyval \<Rightarrow> pyerror + pyval" where
  "parse_polars E df = to_dicts E df"

subsection \<open>Files\<close>

definition parse_csv :: "runtime \<Rightarrow> string \<Rightarrow> pyerror + pyval" where
  "parse_csv E file_path =
     (if HAS_PANDAS E then
        (case pd_read_csv E file_path of
           Inl e \<Rightarrow> Inl e
         | Inr df \<Rightarrow> pandas_to_records E df)
      else
        (case open_text E file_path of
           Inl e \<Rightarrow> Inl e
         | Inr content \<Rightarrow>
             (case read_csv_text E content of
                Inl e \<Rightarrow> Inl e
              | Inr records \<Rightarrow> Inr (PList records))))"

definition parse_parquet :: "runtime \<Rightarrow> string \<Rightarrow> pyerror + pyval" where
  "parse_parquet E file_path =
     (if HAS_PANDAS E then
        (case pd_read_parquet E file_path of
           Inl e \<Rightarrow> Inl e
         | Inr df \<Rightarrow> pandas_to_records E df)
      else if HAS_PYARROW E then pq_read_table_to_pylist E file_path
      else Inl (ImportError ''Either pandas or pyarrow is required to read Parquet files''))"

definition parse_file :: "runtime \<Rightarrow> string \<Rightarrow> pyerror + pyval" where
  "parse_file E file_path =
     (let suffix = path_suffix file_path
      in if py_lower suffix = ''.csv'' then parse_csv E file_path
         else if py_lower suffix \<in> set [''.parquet'', ''.pq''] then parse_parquet E file_path
         else Inl (ValueError (''Unsupported file format: '' @ suffix)))"

subsection \<open>The dispatch on the input's shape\<close>

text \<open>
  The tests of \<^verbatim>\<open>_parse_input\<close>, each as the interpreter decides it.
  \<^verbatim>\<open>isinstance(data, (str, Path))\<close> holds of a text, a path and an instance of a
  subclass of either, and gives the path's text; \<^verbatim>\<open>isinstance(data, list)\<close> and
  \<^verbatim>\<open>isinstance(data, dict)\<close> hold of the builtin values and of instances of their
  subclasses; \<^verbatim>\<open>hasattr(data, '__module__')\<close> and \<^verbatim>\<open>hasattr(data, 'to_dict')\<close> are
  read off the class.
\<close>

definition path_text :: "pyval \<Rightarrow> string option" where
  "path_text data =
     (case data of
        PStr p \<Rightarrow> Some p
      | PPath p \<Rightarrow> Some p
      | PObject c (PStr p) \<Rightarrow> Some p
      | PObject c (PPath p) \<Rightarrow> Some p
      | _ \<Rightarrow> None)"

definition list_items :: "pyval \<Rightarrow> pyval list option" where
  "list_items data =
     (case data of
        PList xs \<Rightarrow> Some xs
      | PObject c (PList xs) \<Rightarrow> Some xs
      | _ \<Rightarrow> None)"

definition isinstance_list :: "pyval \<Rightarrow> bool" where
  "isinstance_list data = (list_items data \<noteq> None)"

definition dict_items :: "pyval \<Rightarrow> (pyval \<times> pyval) list option" where
  "dict_items data =
     (case data of
        PDict kvs \<Rightarrow> Some kvs
      | PObject c (PDict kvs) \<Rightarrow> Some kvs
      | _ \<Rightarrow> None)"

definition isinstance_dict :: "pyval \<Rightarrow> bool" where
  "isinstance_dict data = (dict_items data \<noteq> None)"

definition module_text :: "pyval \<Rightarrow> string option" where
  "module_text data = (case data of PObject c b \<Rightarrow> obj_module c | _ \<Rightarrow> None)"

definition has_to_dict :: "pyval \<Rightarrow> bool" where
  "has_to_dict data = (case data of PObject c b \<Rightarrow> obj_has_to_dict c | _ \<Rightarrow> False)"

definition type_repr :: "pyval \<Rightarrow> string" where
  "type_repr data =
     (case data of
        PNone \<Rightarrow> ''<class 'NoneType'>''
      | PBool _ \<Rightarrow> ''<class 'bool'>''
      | PInt _ \<Rightarrow> ''<class 'int'>''
      | PFloat _ \<Rightarrow> ''<class 'float'>''
      | PStr _ \<Rightarrow> ''<class 'str'>''
      | PList _ \<Rightarrow> ''<class 'list'>''
      | PDict _ \<Rightarrow> ''<class 'dict'>''
      | PPath _ \<Rightarrow> ''<class 'pathlib.PosixPath'>''
      | PObject c _ \<Rightarrow> obj_type c)"

definition module_has :: "string \<Rightarrow> pyval \<Rightarrow> bool" where
  "module_has name data = (case module_text data of None \<Rightarrow> False | Some m \<Rightarrow> sublist name m)"

text \<open>Line 77 and line 81: the two tests that send an object to a dataframe library.\<close>

definition taken_as_polars :: "runtime \<Rightarrow> pyval \<Rightarrow> bool" where
  "taken_as_polars E data =
     (HAS_POLARS E \<and> module_text data \<noteq> None \<and> module_has ''polars'' data)"

definition taken_as_pandas :: "runtime \<Rightarrow> pyval \<Rightarrow> bool" where
  "taken_as_pandas E data =
     (HAS_PANDAS E \<and> module_text data \<noteq> None
      \<and> (module_has ''pandas'' data \<or> has_to_dict data))"

definition parse_input :: "runtime \<Rightarrow> pyval \<Rightarrow> pyerror + pyval" where
  "parse_input E data =
     (case path_text data of
        Some p \<Rightarrow> parse_file E p
      | None \<Rightarrow>
          if taken_as_polars E data then parse_polars E data
          else if taken_as_pandas E data then parse_pandas E data
          else if isinstance_list data then Inr data
          else if isinstance_dict data then Inr (PList [data])
          else Inl (ValueError (''Unsupported data type: '' @ type_repr data)))"

section \<open>The public operations\<close>

text \<open>
  \<^verbatim>\<open>GrandJuryClient.evaluate_model\<close>. An argument left unset is \<^verbatim>\<open>None\<close>; the
  default of \<^verbatim>\<open>previous_score\<close> is \<^verbatim>\<open>0.0\<close>.
\<close>

definition default_previous_score :: pyval where
  "default_previous_score = PFloat (Finite 0)"

definition evaluate_payload :: "runtime \<Rightarrow> pyval \<Rightarrow> pyval \<Rightarrow> pyval \<Rightarrow> pyval \<Rightarrow> pyerror + pyval" where
  "evaluate_payload E previous_score previous_timestamp votes reputations =
     (case (if previous_timestamp = PNone
            then (case sub_one_hour (datetime_now E) of
                    Inl e \<Rightarrow> Inl e
                  | Inr dt \<Rightarrow> Inr (PStr (isoformat dt)))
            else Inr previous_timestamp) of
        Inl e \<Rightarrow> Inl e
      | Inr ts \<Rightarrow>
          let vs = (if votes = PNone then PList [] else votes);
              rs = (if reputations = PNone then PList [] else reputations)
          in Inr (PDict [(PStr ''previous_score'', previous_score),
                         (PStr ''previous_timestamp'', ts),
                         (PStr ''votes'', vs),
                         (PStr ''reputations'', rs)]))"

definition evaluate_model :: "runtime \<Rightarrow> client \<Rightarrow> pyval \<Rightarrow> pyval \<Rightarrow> pyval \<Rightarrow> pyval \<Rightarrow> pyerror + pyval" where
  "evaluate_model E self previous_score previous_timestamp votes reputations =
     (case evaluate_payload E previous_score previous_timestamp votes reputations of
        Inl e \<Rightarrow> Inl e
      | Inr payload \<Rightarrow> make_request E self ''evaluate'' payload)"

text \<open>
  The module-level \<^verbatim>\<open>evaluate_model(predictions, references, api_key)\<close>, kept for the
  older call signature. \<open>eq\<close> is the truth value of Python's \<^verbatim>\<open>p == r\<close> on the
  elements, which is theirs to define.
\<close>

definition agreement_votes :: "(pyval \<Rightarrow> pyval \<Rightarrow> bool) \<Rightarrow> pyval list \<Rightarrow> pyval list \<Rightarrow> pyval list" where
  "agreement_votes eq predictions references =
     map (\<lambda>(p, r). if eq p r then PFloat (Finite 1) else PFloat (Finite 0)) (zip predictions references)"

definition legacy_evaluate_model ::
    "runtime \<Rightarrow> (pyval \<Rightarrow> pyval \<Rightarrow> bool) \<Rightarrow> pyval \<Rightarrow> pyval \<Rightarrow> string option \<Rightarrow> pyerror + pyval" where
  "legacy_evaluate_model E eq predictions references key =
     (let c = GrandJuryClient_init key API_BASE_URL
      in case (list_items predictions, list_items references) of
           (Some ps, Some rs) \<Rightarrow>
             (let votes = agreement_votes eq ps rs;
                  reputations = replicate (length votes) (PFloat (Finite 1))
              in evaluate_model E c default_previous_score PNone (PList votes) (PList reputations))
         | _ \<Rightarrow> evaluate_model E c default_previous_score PNone predictions references)"

text \<open>
  The five operations that take tabular input. \<^verbatim>\<open>inference_ids\<close> enters the payload
  only when it is not \<^verbatim>\<open>None\<close>.
\<close>

definition with_inference_ids :: "(pyval \<times> pyval) list \<Rightarrow> pyval \<Rightarrow> (pyval \<times> pyval) list" where
  "with_inference_ids payload inference_ids =
     (if inference_ids \<noteq> PNone then dict_set payload (PStr ''inference_ids'') inference_ids
      else payload)"

definition vote_histogram :: "runtime \<Rightarrow> client \<Rightarrow> pyval \<Rightarrow> pyval \<Rightarrow> pyval \<Rightarrow> pyerror + pyval" where
  "vote_histogram E self data duration_minutes gross =
     (case parse_input E data of
        Inl e \<Rightarrow> Inl e
      | Inr parsed_data \<Rightarrow>
          make_request E self ''verdict/histogram''
            (PDict [(PStr ''data'', parsed_data),
                    (PStr ''duration_minutes'', duration_minutes),
                    (PStr ''gross'', gross)]))"

definition vote_completeness ::
    "runtime \<Rightarrow> client \<Rightarrow> pyval \<Rightarrow> pyval \<Rightarrow> pyval \<Rightarrow> pyval \<Rightarrow> pyerror + pyval" where
  "vote_completeness E self data voter_list inference_ids gross =
     (case parse_input E data of
        Inl e \<Rightarrow> Inl e
      | Inr parsed_data \<Rightarrow>
          make_request E self ''verdict/completeness''
            (PDict (with_inference_ids
                      [(PStr ''data'', parsed_data),
                       (PStr ''voter_list'', voter_list),
                       (PStr ''gross'', gross)]
                      inference_ids)))"

definition population_confidence ::
    "runtime \<Rightarrow> client \<Rightarrow> pyval \<Rightarrow> pyval \<Rightarrow> pyval \<Rightarrow> pyerror + pyval" where
  "population_confidence E self data voter_list inference_ids =
     (case parse_input E data of
        Inl e \<Rightarrow> Inl e
      | Inr parsed_data \<Rightarrow>
          make_request E self ''verdict/population-confidence''
            (PDict (with_inference_ids
                      [(PStr ''data'', parsed_data),
                       (PStr ''voter_list'', voter_list)]
                      inference_ids)))"

definition majority_good_votes ::
    "runtime \<Rightarrow> client \<Rightarrow> pyval \<Rightarrow> pyval \<Rightarrow> pyval \<Rightarrow> pyerror + pyval" where
  "majority_good_votes E self data good_vote threshold =
     (case parse_input E data of
        Inl e \<Rightarrow> Inl e
      | Inr parsed_data \<Rightarrow>
          make_request E self ''verdict/majority-good''
            (PDict [(PStr ''data'', parsed_data),
                    (PStr ''good_vote'', good_vote),
                    (PStr ''threshold'', threshold)]))"

definition votes_distribution :: "runtime \<Rightarrow> client \<Rightarrow> pyval \<Rightarrow> pyval \<Rightarrow> pyerror + pyval" where
  "votes_distribution E self data inference_ids =
     (case parse_input E data of
        Inl e \<Rightarrow> Inl e
      | Inr parsed_data \<Rightarrow>
          make_request E self ''verdict/votes-distribution''
            (PDict (with_inference_ids [(PStr ''data'', parsed_data)] inference_ids)))"

text \<open>
  A client object over its life: the constructor sets the two attributes, and then
  any of the six methods is called, in any runtime. A call gives its result and
  leaves the object as the method body leaves it; no method body assigns to
  \<^verbatim>\<open>self.api_key\<close> or \<^verbatim>\<open>self.base_url\<close>.
\<close>

datatype call =
    EvaluateModel pyval pyval pyval pyval
  | VoteHistogram pyval pyval pyval
  | VoteCompleteness pyval pyval pyval pyval
  | PopulationConfidence pyval pyval pyval
  | MajorityGoodVotes pyval pyval pyval
  | VotesDistribution pyval pyval

fun perform :: "runtime \<Rightarrow> client \<Rightarrow> call \<Rightarrow> client \<times> (pyerror + pyval)" where
  "perform E self (EvaluateModel previous_score previous_timestamp votes reputations) =
     (self, evaluate_model E self previous_score previous_timestamp votes reputations)"
| "perform E self (VoteHistogram data duration_minutes gross) =
     (self, vote_histogram E self data duration_minutes gross)"
| "perform E self (VoteCompleteness data voter_list inference_ids gross) =
     (self, vote_completeness E self data voter_list inference_ids gross)"
| "perform E self (PopulationConfidence data voter_list inference_ids) =
     (self, population_confidence E self data voter_list inference_ids)"
| "perform E self (MajorityGoodVotes data good_vote threshold) =
     (self, majority_good_votes E self data good_vote threshold)"
| "perform E self (VotesDistribution data inference_ids) =
     (self, votes_distribution E self data inference_ids)"

fun client_after :: "client \<Rightarrow> (runtime \<times> call) list \<Rightarrow> client" where
  "client_after self [] = self"
| "client_after self ((E, c) # calls) = client_after (fst (perform E self c)) calls"

section \<open>The notions the properties are stated in\<close>

text \<open>
  Two texts are equal up to case when they have the same length and, place by place,
  the same character or the same ASCII letter in either case.
\<close>

definition is_ascii_letter :: "char \<Rightarrow> bool" where
  "is_ascii_letter c =
     (let n = (of_char c :: nat) in (65 \<le> n \<and> n \<le> 90) \<or> (97 \<le> n \<and> n \<le> 122))"

definition same_letter :: "char \<Rightarrow> char \<Rightarrow> bool" where
  "same_letter a b =
     (a = b \<or> (is_ascii_letter a \<and> is_ascii_letter b
               \<and> (of_char a :: nat) mod 32 = (of_char b :: nat) mod 32))"

definition case_insensitive_eq :: "string \<Rightarrow> string \<Rightarrow> bool" where
  "case_insensitive_eq v w = list_all2 same_letter v w"

text \<open>
  The coercion of a cell as the specification words it: booleans first, then null,
  then a number (an integer when the text has no decimal point, a float otherwise),
  and the text itself when the number does not parse.
\<close>

definition coerce_by_priority :: "runtime \<Rightarrow> string \<Rightarrow> pyval" where
  "coerce_by_priority E v =
     (if case_insensitive_eq v ''true'' then PBool True
      else if case_insensitive_eq v ''false'' then PBool False
      else if case_insensitive_eq v ''none'' \<or> v = [] then PNone
      else (case (if CHR ''.'' \<notin> set v then map_option PInt (py_int E v)
                  else map_option PFloat (py_float E v)) of
              Some number \<Rightarrow> number
            | None \<Rightarrow> PStr v))"

text \<open>
  The rows the plain parser reads from a text, before any coercion: the header and
  then every dictionary the dictionary reader hands over, in order.
\<close>

function DictReader_rows :: "string list \<Rightarrow> string list \<Rightarrow> pyerror + (pyval \<times> pyval) list list" where
  "DictReader_rows fieldnames ls =
     (case DictReader_next fieldnames ls of
        Inl e \<Rightarrow> Inl e
      | Inr None \<Rightarrow> Inr []
      | Inr (Some (row, rest)) \<Rightarrow>
          (case DictReader_rows fieldnames rest of
             Inl e \<Rightarrow> Inl e
           | Inr rows \<Rightarrow> Inr (row # rows)))"
  by pat_completeness auto
termination
  by (relation "measure (\<lambda>(fieldnames, ls). length ls)") (auto dest: DictReader_next_shorter)

declare DictReader_rows.simps [simp del]

definition rows_read :: "string \<Rightarrow> pyerror + (pyval \<times> pyval) list list" where
  "rows_read content =
     (case reader_next (file_lines [] content) of
        Inl e \<Rightarrow> Inl e
      | Inr None \<Rightarrow> Inr []
      | Inr (Some (fieldnames, rest)) \<Rightarrow> DictReader_rows fieldnames rest)"

text \<open>
  A row of cells that are all text, as the reader hands it over, and the same row
  with every cell coerced in the order of priority.
\<close>

definition text_row :: "(pyval \<times> string) list \<Rightarrow> (pyval \<times> pyval) list" where
  "text_row cells = map (\<lambda>(k, t). (k, PStr t)) cells"

definition coerced_row :: "runtime \<Rightarrow> (pyval \<times> string) list \<Rightarrow> pyval" where
  "coerced_row E cells = PDict (map (\<lambda>(k, t). (k, coerce_by_priority E t)) cells)"

text \<open>
  A Record maps field names, which are text, to scalars: text, a number, a boolean
  or null. A sequence is a list or an instance of a subclass of it, a mapping a
  dictionary or an instance of a subclass of it.
\<close>

definition is_scalar :: "pyval \<Rightarrow> bool" where
  "is_scalar v =
     (case v of
        PNone \<Rightarrow> True | PBool _ \<Rightarrow> True | PInt _ \<Rightarrow> True | PFloat _ \<Rightarrow> True | PStr _ \<Rightarrow> True
      | _ \<Rightarrow> False)"

definition is_text :: "pyval \<Rightarrow> bool" where
  "is_text v = (case v of PStr _ \<Rightarrow> True | _ \<Rightarrow> False)"

definition is_mapping :: "pyval \<Rightarrow> bool" where
  "is_mapping v = (dict_items v \<noteq> None)"

definition is_record :: "pyval \<Rightarrow> bool" where
  "is_record v =
     (case dict_items v of
        Some kvs \<Rightarrow> list_all (\<lambda>(k, x). is_text k \<and> is_scalar x) kvs
      | None \<Rightarrow> False)"

definition is_sequence :: "pyval \<Rightarrow> bool" where
  "is_sequence v = (list_items v \<noteq> None)"

definition is_mapping_sequence :: "pyval \<Rightarrow> bool" where
  "is_mapping_sequence v = (case list_items v of Some rs \<Rightarrow> list_all is_mapping rs | None \<Rightarrow> False)"

definition is_record_sequence :: "pyval \<Rightarrow> bool" where
  "is_record_sequence v = (case list_items v of Some rs \<Rightarrow> list_all is_record rs | None \<Rightarrow> False)"

text \<open>
  Rows of a dataframe that convert to Records: every column label is text, and every
  cell is missing, or has an \<^verbatim>\<open>item\<close> that gives a scalar, or has none and is a scalar.
\<close>

definition cell_gives_scalar :: "cell \<Rightarrow> bool" where
  "cell_gives_scalar c =
     (cell_isna c = Inr True
      \<or> (case cell_item c of Some x \<Rightarrow> is_scalar x | None \<Rightarrow> is_scalar (cell_value c)))"

definition rows_give_records :: "(pyval \<times> cell) list list \<Rightarrow> bool" where
  "rows_give_records rows =
     list_all (list_all (\<lambda>(k, c). is_text k \<and> cell_gives_scalar c)) rows"

text \<open>
  The dataframe that pandas converts for an input: the input itself when line 81
  takes it, or the frame read from a CSV or Parquet file when pandas is installed.
\<close>

definition pandas_frame_of :: "runtime \<Rightarrow> pyval \<Rightarrow> pyval option" where
  "pandas_frame_of E data =
     (case path_text data of
        None \<Rightarrow> if \<not> taken_as_polars E data \<and> taken_as_pandas E data then Some data else None
      | Some p \<Rightarrow>
          if \<not> HAS_PANDAS E then None
          else if py_lower (path_suffix p) = ''.csv'' then
            (case pd_read_csv E p of Inl e \<Rightarrow> None | Inr df \<Rightarrow> Some df)
          else if py_lower (path_suffix p) \<in> set [''.parquet'', ''.pq''] then
            (case pd_read_parquet E p of Inl e \<Rightarrow> None | Inr df \<Rightarrow> Some df)
          else None)"

text \<open>
  The value a library's own conversion returns for an input, where the normalizer
  returns that value as it is: \<^verbatim>\<open>to_dicts()\<close> of an object that line 77 takes, and
  \<^verbatim>\<open>to_pylist()\<close> of the table pyarrow reads from a Parquet file when pandas is not
  installed.
\<close>

definition library_value :: "runtime \<Rightarrow> pyval \<Rightarrow> (pyerror + pyval) option" where
  "library_value E data =
     (case path_text data of
        None \<Rightarrow> if taken_as_polars E data then Some (to_dicts E data) else None
      | Some p \<Rightarrow>
          if \<not> HAS_PANDAS E \<and> HAS_PYARROW E
             \<and> py_lower (path_suffix p) \<noteq> ''.csv''
             \<and> py_lower (path_suffix p) \<in> set [''.parquet'', ''.pq'']
          then Some (pq_read_table_to_pylist E p) else None)"

text \<open>\<^verbatim>\<open>payload[key]\<close> for a payload that is a dictionary with that key.\<close>

definition payload_get :: "pyval \<Rightarrow> string \<Rightarrow> pyval option" where
  "payload_get payload key = (case payload of PDict kvs \<Rightarrow> map_of kvs (PStr key) | _ \<Rightarrow> None)"

text \<open>The value of a run of decimal digits, continuing from \<open>acc\<close>.\<close>

definition digit_value :: "char \<Rightarrow> nat option" where
  "digit_value c =
     (let n = (of_char c :: nat) in if 48 \<le> n \<and> n \<le> 57 then Some (n - 48) else None)"

fun digits_value :: "nat \<Rightarrow> string \<Rightarrow> nat option" where
  "digits_value acc [] = Some acc"
| "digits_value acc (c # cs) =
     (case digit_value c of None \<Rightarrow> None | Some d \<Rightarrow> digits_value (10 * acc + d) cs)"

text \<open>
  Reading an ISO 8601 date and time back: four digits of year, two each of month,
  day, hour, minute and second, separated by \<^verbatim>\<open>-\<close>, \<^verbatim>\<open>T\<close> and \<^verbatim>\<open>:\<close>, and optionally a
  point and six digits of microseconds.
\<close>

definition digits_at :: "string \<Rightarrow> nat \<Rightarrow> nat \<Rightarrow> int option" where
  "digits_at s i w =
     (if length s < i + w then None
      else (case digits_value 0 (take w (drop i s)) of None \<Rightarrow> None | Some n \<Rightarrow> Some (int n)))"

definition char_at :: "string \<Rightarrow> nat \<Rightarrow> char \<Rightarrow> bool" where
  "char_at s i c = (i < length s \<and> s ! i = c)"

definition fromisoformat :: "string \<Rightarrow> datetime option" where
  "fromisoformat s =
     (if char_at s 4 (CHR ''-'') \<and> char_at s 7 (CHR ''-'') \<and> char_at s 10 (CHR ''T'')
         \<and> char_at s 13 (CHR '':'') \<and> char_at s 16 (CHR '':'')
         \<and> (length s = 19 \<or> (length s = 26 \<and> char_at s 19 (CHR ''.'')))
      then
        Option.bind (digits_at s 0 4) (\<lambda>y.
        Option.bind (digits_at s 5 2) (\<lambda>mo.
        Option.bind (digits_at s 8 2) (\<lambda>d.
        Option.bind (digits_at s 11 2) (\<lambda>h.
        Option.bind (digits_at s 14 2) (\<lambda>mi.
        Option.bind (digits_at s 17 2) (\<lambda>sec.
        Option.bind (if length s = 19 then Some 0 else digits_at s 20 6) (\<lambda>us.
          Some \<lparr>year = y, month = mo, day = d, hour = h, minute = mi, second = sec,
                microsecond = us\<rparr>)))))))
      else None)"

section \<open>A runtime without optional libraries\<close>

text \<open>
  A runtime to run the model in: none of pandas, polars, pyarrow and msgspec is
  installed, every path opens the one given text, the server answers every request
  with the one given response, and \<^verbatim>\<open>int\<close> and \<^verbatim>\<open>float\<close> read plain ASCII decimals
  (an optional sign and digits; digits, a point and digits).
\<close>

definition decimal_nat :: "string \<Rightarrow> nat option" where
  "decimal_nat s = (if s = [] then None else digits_value 0 s)"

definition decimal_int :: "string \<Rightarrow> int option" where
  "decimal_int s =
     (case s of
        [] \<Rightarrow> None
      | c # cs \<Rightarrow>
          if c = CHR ''-'' then map_option (\<lambda>n. - int n) (decimal_nat cs)
          else if c = CHR ''+'' then map_option int (decimal_nat cs)
          else map_option int (decimal_nat s))"

definition decimal_float :: "string \<Rightarrow> pyfloat option" where
  "decimal_float s =
     (let whole = takeWhile (\<lambda>c. c \<noteq> CHR ''.'') s;
          frac = drop (length whole + 1) s
      in if length whole = length s then None
         else (case (decimal_nat whole, decimal_nat frac) of
                 (Some a, Some b) \<Rightarrow> Some (Finite (real a + real b / 10 ^ length frac))
               | _ \<Rightarrow> None))"

definition bare_runtime :: "string \<Rightarrow> response \<Rightarrow> datetime \<Rightarrow> runtime" where
  "bare_runtime content reply now =
     \<lparr>HAS_PANDAS = False, HAS_POLARS = False, HAS_PYARROW = False, HAS_MSGSPEC = False,
      msgspec_encode = (\<lambda>_. Inl (LibraryError ''msgspec is not installed'')),
      requests_post = (\<lambda>_. Inr reply),
      datetime_now = now,
      py_int = decimal_int,
      py_float = decimal_float,
      open_text = (\<lambda>_. Inr content),
      pd_read_csv = (\<lambda>_. Inl (LibraryError ''pandas is not installed'')),
      pd_read_parquet = (\<lambda>_. Inl (LibraryError ''pandas is not installed'')),
      pq_read_table_to_pylist = (\<lambda>_. Inl (LibraryError ''pyarrow is not installed'')),
      to_dicts = (\<lambda>_. Inl (LibraryError ''polars is not installed'')),
      where_notna_records = (\<lambda>_. Inl (LibraryError ''pandas is not installed'')),
      to_dict_records = (\<lambda>_. Inl (LibraryError ''pandas is not installed''))\<rparr>"

definition server_error :: response where
  "server_error = \<lparr>status_code = 500, response_text = ''server error'',
                    response_json = Inl (LibraryError ''JSONDecodeError'')\<rparr>"

definition score_reply :: response where
  "score_reply = \<lparr>status_code = 200, response_text = ''{\"score\": 0.9}'',
                   response_json = Inr (PDict [(PStr ''score'', PFloat (Finite (9 / 10)))])\<rparr>"

definition after_midnight :: datetime where
  "after_midnight = \<lparr>year = 2024, month = 3, day = 1, hour = 0, minute = 30, second = 15,
           microsecond = 250000\<rparr>"

text \<open>
  A runtime with dataframe libraries: the three flags are as given, every
  \<^verbatim>\<open>to_dicts()\<close> and \<^verbatim>\<open>to_pylist()\<close> gives \<open>listed\<close>, every file pandas reads is one
  frame, and every conversion of a frame to rows gives \<open>rows\<close>.
\<close>

definition data_frame :: pyval where
  "data_frame =
     PObject \<lparr>obj_module = Some ''pandas.core.frame'', obj_has_to_dict = True,
              obj_type = ''<class 'pandas.core.frame.DataFrame'>'', obj_id = 0\<rparr> PNone"

definition polars_frame :: pyval where
  "polars_frame =
     PObject \<lparr>obj_module = Some ''polars.dataframe.frame'', obj_has_to_dict = True,
              obj_type = ''<class 'polars.dataframe.frame.DataFrame'>'', obj_id = 1\<rparr> PNone"

definition library_runtime ::
    "bool \<Rightarrow> bool \<Rightarrow> bool \<Rightarrow> pyerror + pyval \<Rightarrow> pyerror + (pyval \<times> cell) list list \<Rightarrow> runtime" where
  "library_runtime pandas polars pyarrow listed rows =
     (bare_runtime [] server_error after_midnight)
       \<lparr>HAS_PANDAS := pandas, HAS_POLARS := polars, HAS_PYARROW := pyarrow,
        pd_read_csv := (\<lambda>_. Inr data_frame),
        pd_read_parquet := (\<lambda>_. Inr data_frame),
        pq_read_table_to_pylist := (\<lambda>_. listed),
        to_dicts := (\<lambda>_. listed),
        where_notna_records := (\<lambda>_. rows),
        to_dict_records := (\<lambda>_. rows)\<rparr>"




text \<open>
  A mapping with a list among its values, the rows of a dataframe with one column
  that holds such a list, the rows of a dataframe with a boolean and a missing value,
  and an instance of a class that is no dataframe, defined in a module named
  \<^verbatim>\<open>polars_ext\<close>.
\<close>

definition tagged_row :: pyval where
  "tagged_row = PDict [(PStr ''tags'', PList [PStr ''a''])]"

definition tagged_cells :: "(pyval \<times> cell) list list" where
  "tagged_cells = [[(PStr ''tags'', Cell (Inr False) None (PList [PStr ''a'']))]]"

definition voted_cells :: "(pyval \<times> cell) list list" where
  "voted_cells =
     [[(PStr ''vote'', Cell (Inr False) None (PBool True)),
       (PStr ''score'', Cell (Inr True) None PNone)]]"

definition polars_like :: pyval where
  "polars_like =
     PObject \<lparr>obj_module = Some ''polars_ext'', obj_has_to_dict = False,
              obj_type = ''<class 'polars_ext.Table'>'', obj_id = 5\<rparr> PNone"

text \<open>Five small CSV texts: a blank line after the rows, a row that is a quoted
  empty string, a row with an empty second cell, a row of numbers, and two rows of
  booleans.\<close>

definition blank_row_csv :: string where
  "blank_row_csv = ''x'' @ [CHR 0x0A] @ ''None'' @ [CHR 0x0A] @ [CHR 0x0A]"

definition quoted_empty_csv :: string where
  "quoted_empty_csv = ''x'' @ [CHR 0x0A] @ ''None'' @ [CHR 0x0A] @ [CHR 0x22, CHR 0x22, CHR 0x0A]"

definition empty_cell_csv :: string where
  "empty_cell_csv = ''x,y'' @ [CHR 0x0A] @ ''None,'' @ [CHR 0x0A]"

definition numbers_csv :: string where
  "numbers_csv = ''a,b'' @ [CHR 0x0A] @ ''1,2.5'' @ [CHR 0x0A]"

definition flags_csv :: string where
  "flags_csv = ''flag'' @ [CHR 0x0A] @ ''True'' @ [CHR 0x0A] @ ''False'' @ [CHR 0x0A]"

chapter \<open>Properties\<close>

section \<open>Auxiliary facts\<close>

subsection \<open>Evaluating characters and numbers\<close>

lemmas char_eval = char_of_def bit_Suc_0_iff bit_0

lemma str_int_500: "str_int 500 = ''500''"
  by (simp add: str_int_def str_nat.simps digit_char_def char_eval)

subsection \<open>The calendar\<close>

lemma mod_100_4: "(z::int) mod 100 = 0 \<Longrightarrow> z mod 4 = 0"
proof -
  assume "z mod 100 = 0"
  then have "100 dvd z" by (simp add: dvd_eq_mod_eq_0)
  moreover have "(4::int) dvd 100" by simp
  ultimately have "4 dvd z" by (rule dvd_trans[rotated])
  then show ?thesis by (simp add: dvd_eq_mod_eq_0)
qed

lemma mod_400_100: "(z::int) mod 400 = 0 \<Longrightarrow> z mod 100 = 0"
proof -
  assume "z mod 400 = 0"
  then have "400 dvd z" by (simp add: dvd_eq_mod_eq_0)
  moreover have "(100::int) dvd 400" by simp
  ultimately have "100 dvd z" by (rule dvd_trans[rotated])
  then show ?thesis by (simp add: dvd_eq_mod_eq_0)
qed

lemma div_step:
  assumes "0 < k"
  shows "(z::int) div k = (z - 1) div k + (if z mod k = 0 then 1 else 0)"
proof (cases "z mod k = 0")
  case True
  have "z = k * (z div k) + z mod k" by simp
  with True have "z - 1 = k * (z div k - 1) + (k - 1)" by (simp add: algebra_simps)
  then have "(z - 1) div k = z div k - 1"
    by (rule int_div_pos_eq) (use assms in simp_all)
  with True show ?thesis by simp
next
  case False
  have m: "0 \<le> z mod k" "z mod k < k" using assms by simp_all
  have "z = k * (z div k) + z mod k" by simp
  then have "z - 1 = k * (z div k) + (z mod k - 1)" by simp
  then have "(z - 1) div k = z div k"
    by (rule int_div_pos_eq) (use m False in simp_all)
  with False show ?thesis by simp
qed

lemma days_before_year_step:
  "days_before_year y = days_before_year (y - 1) + (if is_leap (y - 1) then 366 else 365)"
proof -
  define z where "z = y - 1"
  have a: "z div 4 = (z - 1) div 4 + (if z mod 4 = 0 then 1 else 0)" by (rule div_step) simp
  have b: "z div 100 = (z - 1) div 100 + (if z mod 100 = 0 then 1 else 0)" by (rule div_step) simp
  have c: "z div 400 = (z - 1) div 400 + (if z mod 400 = 0 then 1 else 0)" by (rule div_step) simp
  have e: "days_before_year y = z * 365 + z div 4 - z div 100 + z div 400"
    by (simp add: days_before_year_def z_def)
  have f: "days_before_year (y - 1) = (z - 1) * 365 + (z - 1) div 4 - (z - 1) div 100 + (z - 1) div 400"
    by (simp add: days_before_year_def z_def)
  have g: "(if z mod 4 = 0 then 1 else 0) - (if z mod 100 = 0 then 1 else 0) + (if z mod 400 = 0 then 1 else (0::int))
        = (if is_leap z then 1 else 0)"
  proof (cases "z mod 4 = 0")
    case False
    then have n100: "z mod 100 \<noteq> 0" by (rule contrapos_nn) (rule mod_100_4)
    then have "z mod 400 \<noteq> 0" by (rule contrapos_nn) (rule mod_400_100)
    note n100 this
    with False show ?thesis by (simp only: is_leap_def if_False if_True simp_thms diff_self add_0)
  next
    case t4: True
    show ?thesis
    proof (cases "z mod 100 = 0")
      case False
      then have "z mod 400 \<noteq> 0" by (rule contrapos_nn) (rule mod_400_100)
      note False this
      with t4 False show ?thesis by (simp only: is_leap_def if_False if_True simp_thms diff_0_right add_0_right)
    next
      case t100: True
      show ?thesis
      proof (cases "z mod 400 = 0")
        case False
        with t4 t100 show ?thesis by (simp only: is_leap_def if_False if_True simp_thms diff_self add_0)
      next
        case True
        with t4 t100 show ?thesis by (simp only: is_leap_def if_False if_True simp_thms diff_self add_0)
      qed
    qed
  qed
  have "days_before_year y = days_before_year (y - 1) + 365 + (if is_leap z then 1 else 0)"
    unfolding e f g[symmetric] a b c by (simp add: algebra_simps)
  then show ?thesis by (simp add: z_def)
qed


lemma days_before_month_step:
  assumes "2 \<le> m" "m \<le> 12"
  shows "days_before_month y m = days_before_month y (m - 1) + days_in_month y (m - 1)"
proof -
  from assms have "m = 2 \<or> m = 3 \<or> m = 4 \<or> m = 5 \<or> m = 6 \<or> m = 7 \<or> m = 8 \<or> m = 9 \<or> m = 10 \<or> m = 11 \<or> m = 12"
    by arith
  then show ?thesis
    by (elim disjE) (simp_all add: days_before_month_def days_in_month_def)
qed

lemma days_before_december: "days_before_month y 12 + 31 = (if is_leap y then 366 else 365)"
  by (simp add: days_before_month_def)

lemma days_before_january: "days_before_month y 1 = 0"
  by (simp add: days_before_month_def)

lemma borrow_seconds:
  assumes "0 \<le> s" "s < 60"
  shows "(s - 3600) div 60 = - 60" "(s - 3600) mod 60 = (s::int)"
proof -
  have e: "s - 3600 = 60 * (- 60) + s" by simp
  show "(s - 3600) div 60 = - 60" by (rule int_div_pos_eq[OF e]) (use assms in simp_all)
  show "(s - 3600) mod 60 = s" by (rule int_mod_pos_eq[OF e]) (use assms in simp_all)
qed

lemma borrow_minutes:
  assumes "0 \<le> m" "m < 60"
  shows "(m - 60) div 60 = - 1" "(m - 60) mod 60 = (m::int)"
proof -
  have e: "m - 60 = 60 * (- 1) + m" by simp
  show "(m - 60) div 60 = - 1" by (rule int_div_pos_eq[OF e]) (use assms in simp_all)
  show "(m - 60) mod 60 = m" by (rule int_mod_pos_eq[OF e]) (use assms in simp_all)
qed

lemma borrow_hours:
  assumes "0 \<le> h" "h < 24"
  shows "(h - 1) div 24 = (if h = 0 then - 1 else 0)" "(h - 1) mod 24 = (if h = 0 then 23 else h - (1::int))"
proof -
  have e: "h - 1 = 24 * (if h = 0 then - 1 else 0) + (if h = 0 then 23 else h - 1)" by simp
  show "(h - 1) div 24 = (if h = 0 then - 1 else 0)" by (rule int_div_pos_eq[OF e]) (use assms in auto)
  show "(h - 1) mod 24 = (if h = 0 then 23 else h - 1)" by (rule int_mod_pos_eq[OF e]) (use assms in auto)
qed

lemma sub_one_hour_eq:
  assumes "valid_datetime now"
  shows "sub_one_hour now =
     (case normalize_date (year now) (month now) (day now + (if hour now = 0 then - 1 else 0)) of
        Inl e \<Rightarrow> Inl e
      | Inr (y', m', d') \<Rightarrow>
          Inr \<lparr>year = y', month = m', day = d', hour = (if hour now = 0 then 23 else hour now - 1),
               minute = minute now, second = second now, microsecond = microsecond now\<rparr>)"
proof -
  from assms have s: "0 \<le> second now" "second now < 60" and m: "0 \<le> minute now" "minute now < 60"
    and h: "0 \<le> hour now" "hour now < 24"
    by (simp_all add: valid_datetime_def)
  note b = borrow_seconds[OF s] borrow_minutes[OF m] borrow_hours[OF h]
  show ?thesis
    by (simp add: sub_one_hour_def normalize_pair_def b s m h split: sum.split prod.split)
qed

lemma normalize_date_eq:
  "normalize_date y m d =
     (if d \<noteq> 0 then (if 1 \<le> y \<and> y \<le> 9999 then Inr (y, m, d) else Inl (OverflowError ''date value out of range''))
      else if 1 < m then (if 1 \<le> y \<and> y \<le> 9999 then Inr (y, m - 1, days_in_month y (m - 1)) else Inl (OverflowError ''date value out of range''))
      else (if 2 \<le> y \<and> y \<le> 10000 then Inr (y - 1, 12, 31) else Inl (OverflowError ''date value out of range'')))"
  by (simp add: normalize_date_def)

lemma days_in_month_bounds: "28 \<le> days_in_month y m" "days_in_month y m \<le> 31"
  by (simp_all add: days_in_month_def)

lemma sub_one_hour_correct:
  assumes v: "valid_datetime now"
      and nf: "\<not> (year now = 1 \<and> month now = 1 \<and> day now = 1 \<and> hour now = 0)"
  shows "\<exists>dt. sub_one_hour now = Inr dt \<and> valid_datetime dt
              \<and> microseconds_of dt = microseconds_of now - 3600000000"
proof -
  from v have y: "1 \<le> year now" "year now \<le> 9999" and mo: "1 \<le> month now" "month now \<le> 12"
    and d: "1 \<le> day now" "day now \<le> days_in_month (year now) (month now)"
    and h: "0 \<le> hour now" "hour now < 24" and mi: "0 \<le> minute now" "minute now < 60"
    and s: "0 \<le> second now" "second now < 60" and us: "0 \<le> microsecond now" "microsecond now < 1000000"
    by (simp_all add: valid_datetime_def)
  consider (same_day) "hour now \<noteq> 0"
    | (same_month) "hour now = 0" "day now \<noteq> 1"
    | (same_year) "hour now = 0" "day now = 1" "month now \<noteq> 1"
    | (year_before) "hour now = 0" "day now = 1" "month now = 1" "year now \<noteq> 1"
    using nf by blast
  then show ?thesis
  proof cases
    case same_day
    let ?dt = "now\<lparr>hour := hour now - 1\<rparr>"
    have "sub_one_hour now = Inr ?dt"
      using same_day y d by (simp add: sub_one_hour_eq[OF v] normalize_date_eq)
    moreover have "valid_datetime ?dt"
      using v same_day h by (simp add: valid_datetime_def)
    moreover have "microseconds_of ?dt = microseconds_of now - 3600000000"
      by (simp add: microseconds_of_def toordinal_def)
    ultimately show ?thesis by blast
  next
    case same_month
    let ?dt = "now\<lparr>day := day now - 1, hour := 23\<rparr>"
    have "sub_one_hour now = Inr ?dt"
      using same_month y d by (simp add: sub_one_hour_eq[OF v] normalize_date_eq)
    moreover have "valid_datetime ?dt"
      using v same_month by (simp add: valid_datetime_def)
    moreover have "microseconds_of ?dt = microseconds_of now - 3600000000"
      using same_month by (simp add: microseconds_of_def toordinal_def)
    ultimately show ?thesis by blast
  next
    case same_year
    let ?dt = "now\<lparr>month := month now - 1, day := days_in_month (year now) (month now - 1), hour := 23\<rparr>"
    have m2: "2 \<le> month now" using same_year mo by simp
    have "sub_one_hour now = Inr ?dt"
      using same_year y m2 by (simp add: sub_one_hour_eq[OF v] normalize_date_eq)
    moreover have "valid_datetime ?dt"
      using v m2 days_in_month_bounds[of "year now" "month now - 1"] by (simp add: valid_datetime_def)
    moreover have "microseconds_of ?dt = microseconds_of now - 3600000000"
      using same_year days_before_month_step[OF m2 mo(2), of "year now"]
      by (simp add: microseconds_of_def toordinal_def)
    ultimately show ?thesis by blast
  next
    case year_before
    let ?dt = "now\<lparr>year := year now - 1, month := 12, day := 31, hour := 23\<rparr>"
    have y2: "2 \<le> year now" using year_before y by simp
    have "sub_one_hour now = Inr ?dt"
      using year_before y y2 by (simp add: sub_one_hour_eq[OF v] normalize_date_eq)
    moreover have "valid_datetime ?dt"
      using v y2 by (simp add: valid_datetime_def days_in_month_def)
    moreover have "microseconds_of ?dt = microseconds_of now - 3600000000"
      using year_before days_before_year_step[of "year now"] days_before_december[of "year now - 1"]
      by (simp add: microseconds_of_def toordinal_def days_before_january)
    ultimately show ?thesis by blast
  qed
qed

subsection \<open>Letters and case\<close>

lemma mod_32_upper: "65 \<le> n \<Longrightarrow> n \<le> 90 \<Longrightarrow> (n::nat) mod 32 = n - 64"
proof -
  assume a: "65 \<le> n" "n \<le> 90"
  then have "n mod 32 = (n - 32) mod 32" by (simp add: le_mod_geq)
  also have "\<dots> = (n - 32 - 32) mod 32" using a by (simp add: le_mod_geq)
  finally show ?thesis using a by simp
qed

lemma mod_32_lower: "97 \<le> n \<Longrightarrow> n \<le> 122 \<Longrightarrow> (n::nat) mod 32 = n - 96"
proof -
  assume a: "97 \<le> n" "n \<le> 122"
  then have "n mod 32 = (n - 32) mod 32" by (simp add: le_mod_geq)
  also have "\<dots> = (n - 32 - 32) mod 32" using a by (simp add: le_mod_geq)
  also have "\<dots> = (n - 32 - 32 - 32) mod 32" using a by (simp add: le_mod_geq)
  finally show ?thesis using a by simp
qed

lemma same_letter_lower:
  assumes "97 \<le> (of_char b :: nat)" "(of_char b :: nat) \<le> 122"
  shows "same_letter a b \<longleftrightarrow> lower_char a = b"
proof (cases "65 \<le> (of_char a :: nat) \<and> (of_char a :: nat) \<le> 90")
  case True
  then have ne: "a \<noteq> b" using assms by auto
  have "lower_char a = b \<longleftrightarrow> (of_char a + 32) mod 256 = (of_char b :: nat)"
    using True by (auto simp: lower_char_def Let_def char_of_eq_iff take_bit_eq_mod)
  also have "\<dots> \<longleftrightarrow> (of_char a :: nat) + 32 = of_char b"
    using True by simp
  also have "\<dots> \<longleftrightarrow> (of_char a :: nat) mod 32 = of_char b mod 32"
    using True assms by (simp add: mod_32_upper mod_32_lower) arith
  also have "\<dots> \<longleftrightarrow> same_letter a b"
    using True assms ne by (simp add: same_letter_def is_ascii_letter_def)
  finally show ?thesis by simp
next
  case False
  then have l: "lower_char a = a" by (auto simp: lower_char_def Let_def)
  have "same_letter a b \<longleftrightarrow> a = b"
  proof
    assume "same_letter a b"
    then consider "a = b" | "97 \<le> (of_char a :: nat)" "(of_char a :: nat) \<le> 122" "(of_char a :: nat) mod 32 = of_char b mod 32"
      using False by (auto simp: same_letter_def is_ascii_letter_def Let_def)
    then show "a = b"
    proof cases
      case 1
      then show ?thesis .
    next
      case 2
      then have "(of_char a :: nat) - 96 = of_char b - 96" using assms by (simp add: mod_32_lower)
      with 2 assms have "(of_char a :: nat) = of_char b" by arith
      then show ?thesis by simp
    qed
  next
    assume "a = b"
    then show "same_letter a b" by (simp add: same_letter_def)
  qed
  with l show ?thesis by simp
qed

lemma case_insensitive_eq_lower:
  assumes "\<forall>b \<in> set w. 97 \<le> (of_char b :: nat) \<and> (of_char b :: nat) \<le> 122"
  shows "case_insensitive_eq v w \<longleftrightarrow> py_lower v = w"
  using assms
proof (induction w arbitrary: v)
  case Nil
  then show ?case by (simp add: case_insensitive_eq_def py_lower_def)
next
  case (Cons b w)
  show ?case
  proof (cases v)
    case Nil
    then show ?thesis by (simp add: case_insensitive_eq_def py_lower_def)
  next
    case (Cons a v')
    have "same_letter a b \<longleftrightarrow> lower_char a = b"
      using Cons.prems by (intro same_letter_lower) simp_all
    moreover have "case_insensitive_eq v' w \<longleftrightarrow> py_lower v' = w"
      using Cons.prems by (intro Cons.IH) simp
    ultimately show ?thesis
      using Cons by (simp add: case_insensitive_eq_def py_lower_def)
  qed
qed

lemma ci_true: "case_insensitive_eq v ''true'' \<longleftrightarrow> py_lower v = ''true''"
  by (rule case_insensitive_eq_lower) simp

lemma ci_false: "case_insensitive_eq v ''false'' \<longleftrightarrow> py_lower v = ''false''"
  by (rule case_insensitive_eq_lower) simp

lemma ci_none: "case_insensitive_eq v ''none'' \<longleftrightarrow> py_lower v = ''none''"
  by (rule case_insensitive_eq_lower) simp

subsection \<open>The stored address and the client object\<close>

lemma endswith_suffix: "endswith s t \<longleftrightarrow> suffix t s"
proof
  assume "endswith s t"
  then have "s = take (length s - length t) s @ t"
    by (metis append_take_drop_id endswith_def)
  then show "suffix t s" by (metis suffixI)
next
  assume "suffix t s"
  then obtain zs where "s = zs @ t" by (auto simp: suffix_def)
  then show "endswith s t" by (simp add: endswith_def)
qed

lemma rstrip_decompose:
  "\<exists>n. s = rstrip c s @ replicate n c"
proof -
  have "rev s = takeWhile (\<lambda>x. x = c) (rev s) @ dropWhile (\<lambda>x. x = c) (rev s)" by simp
  moreover have "takeWhile (\<lambda>x. x = c) (rev s) = replicate (length (takeWhile (\<lambda>x. x = c) (rev s))) c"
    by (rule replicate_length_same[symmetric]) (auto dest: set_takeWhileD)
  ultimately have "rev s = replicate (length (takeWhile (\<lambda>x. x = c) (rev s))) c @ dropWhile (\<lambda>x. x = c) (rev s)"
    by simp
  then have "s = rev (dropWhile (\<lambda>x. x = c) (rev s)) @ replicate (length (takeWhile (\<lambda>x. x = c) (rev s))) c"
    by (metis rev_append rev_replicate rev_rev_ident)
  then show ?thesis unfolding rstrip_def by blast
qed

lemma rstrip_last: "rstrip c s = [] \<or> last (rstrip c s) \<noteq> c"
proof (cases "dropWhile (\<lambda>x. x = c) (rev s)")
  case Nil
  then show ?thesis by (simp add: rstrip_def)
next
  case (Cons y ys)
  then have "y \<noteq> c" by (metis (full_types) hd_dropWhile list.distinct(1) list.sel(1))
  with Cons show ?thesis by (simp add: rstrip_def)
qed

lemma perform_keeps_client: "fst (perform E self c) = self"
  by (cases c) simp_all

lemma client_after_same: "client_after self calls = self"
  by (induction calls arbitrary: self) (auto simp: perform_keeps_client)

subsection \<open>Writing and reading ISO 8601 text\<close>

lemma digit_value_digit_char: "d < 10 \<Longrightarrow> digit_value (digit_char d) = Some d"
  by (simp add: digit_value_def digit_char_def)

lemma digits_value_append:
  "digits_value acc (xs @ ys) =
     (case digits_value acc xs of None \<Rightarrow> None | Some a \<Rightarrow> digits_value a ys)"
  by (induction xs arbitrary: acc) (auto split: option.splits)

lemma digits_value_str_nat:
  "digits_value acc (str_nat n) = Some (acc * 10 ^ length (str_nat n) + n)"
proof (induction n arbitrary: acc rule: str_nat.induct)
  case (1 n)
  show ?case
  proof (cases "n < 10")
    case True
    then show ?thesis
      by (subst (1 2) str_nat.simps) (simp add: digit_value_digit_char)
  next
    case False
    have d: "digit_value (digit_char (n mod 10)) = Some (n mod 10)"
      by (rule digit_value_digit_char) simp
    have s: "str_nat n = str_nat (n div 10) @ [digit_char (n mod 10)]"
      using False by (subst str_nat.simps) simp
    show ?thesis
      unfolding s using "1.IH"[OF False] d
      by (simp add: digits_value_append algebra_simps)
  qed
qed

lemma digits_value_zeros:
  "digits_value 0 (replicate k (CHR ''0'') @ s) = digits_value 0 s"
  by (induction k) (simp_all add: digit_value_def)

lemma str_nat_length:
  "n < 10 ^ w \<Longrightarrow> 0 < w \<Longrightarrow> length (str_nat n) \<le> w"
proof (induction n arbitrary: w rule: str_nat.induct)
  case (1 n)
  show ?case
  proof (cases "n < 10")
    case True
    then show ?thesis using "1.prems" by (subst str_nat.simps) simp
  next
    case False
    with "1.prems" have w: "1 < w"
      by (cases "w = 1") auto
    then obtain w' where w': "w = Suc w'" "0 < w'" by (cases w) auto
    from "1.prems"(1) w' have "n div 10 < 10 ^ w'"
      by (simp add: less_mult_imp_div_less mult.commute)
    from "1.IH"[OF False this w'(2)] have "length (str_nat (n div 10)) \<le> w'" .
    then show ?thesis using False w' by (subst str_nat.simps) simp
  qed
qed

lemma zero_pad_length:
  assumes "0 \<le> i" "i < 10 ^ w" "0 < w"
  shows "length (zero_pad w i) = w"
proof -
  have "nat i < 10 ^ w" using assms by (simp add: nat_less_iff)
  then have "length (str_nat (nat i)) \<le> w" using assms(3) by (rule str_nat_length)
  then show ?thesis using assms(1) by (simp add: zero_pad_def str_int_def Let_def)
qed

lemma zero_pad_value:
  assumes "0 \<le> i"
  shows "digits_value 0 (zero_pad w i) = Some (nat i)"
  using assms by (simp add: zero_pad_def str_int_def Let_def digits_value_zeros digits_value_str_nat)

lemma digits_at_here:
  assumes "length pre = i" "length a = w"
  shows "digits_at (pre @ a @ post) i w = map_option int (digits_value 0 a)"
  using assms by (simp add: digits_at_def split: option.splits)

lemma char_at_here:
  assumes "length pre = i"
  shows "char_at (pre @ c # post) i c'  \<longleftrightarrow> c = c'"
  using assms by (auto simp: char_at_def nth_append)


lemma fromisoformat_whole_seconds:
  assumes "length Y = 4" "length M = 2" "length D = 2" "length H = 2" "length MI = 2" "length S = 2"
      and "digits_value 0 Y = Some y" "digits_value 0 M = Some mo" "digits_value 0 D = Some d"
          "digits_value 0 H = Some h" "digits_value 0 MI = Some mi" "digits_value 0 S = Some sec"
  shows "fromisoformat (Y @ ''-'' @ M @ ''-'' @ D @ ''T'' @ H @ '':'' @ MI @ '':'' @ S)
       = Some \<lparr>year = int y, month = int mo, day = int d, hour = int h, minute = int mi,
               second = int sec, microsecond = 0\<rparr>"
  using assms by (simp add: fromisoformat_def char_at_def digits_at_def nth_append)

lemma fromisoformat_microseconds:
  assumes "length Y = 4" "length M = 2" "length D = 2" "length H = 2" "length MI = 2" "length S = 2"
          "length U = 6"
      and "digits_value 0 Y = Some y" "digits_value 0 M = Some mo" "digits_value 0 D = Some d"
          "digits_value 0 H = Some h" "digits_value 0 MI = Some mi" "digits_value 0 S = Some sec"
          "digits_value 0 U = Some us"
  shows "fromisoformat (Y @ ''-'' @ M @ ''-'' @ D @ ''T'' @ H @ '':'' @ MI @ '':'' @ S @ ''.'' @ U)
       = Some \<lparr>year = int y, month = int mo, day = int d, hour = int h, minute = int mi,
               second = int sec, microsecond = int us\<rparr>"
  using assms by (simp add: fromisoformat_def char_at_def digits_at_def nth_append)


lemma isoformat_roundtrip:
  assumes "valid_datetime dt"
  shows "fromisoformat (isoformat dt) = Some dt"
proof -
  from assms have b: "0 \<le> year dt" "year dt < 10 ^ 4" "0 \<le> month dt" "month dt < 10 ^ 2"
      "0 \<le> day dt" "day dt < 10 ^ 2" "0 \<le> hour dt" "hour dt < 10 ^ 2"
      "0 \<le> minute dt" "minute dt < 10 ^ 2" "0 \<le> second dt" "second dt < 10 ^ 2"
      "0 \<le> microsecond dt" "microsecond dt < 10 ^ 6"
    using days_in_month_bounds(2)[of "year dt" "month dt"]
    by (simp_all add: valid_datetime_def)
  note len = zero_pad_length[OF b(1,2)] zero_pad_length[OF b(3,4)] zero_pad_length[OF b(5,6)]
    zero_pad_length[OF b(7,8)] zero_pad_length[OF b(9,10)] zero_pad_length[OF b(11,12)]
  note val = zero_pad_value[OF b(1), of 4] zero_pad_value[OF b(3), of 2] zero_pad_value[OF b(5), of 2]
    zero_pad_value[OF b(7), of 2] zero_pad_value[OF b(9), of 2] zero_pad_value[OF b(11), of 2]
  have same: "\<lparr>year = int (nat (year dt)), month = int (nat (month dt)), day = int (nat (day dt)),
      hour = int (nat (hour dt)), minute = int (nat (minute dt)), second = int (nat (second dt)),
      microsecond = microsecond dt\<rparr> = dt"
    using b by simp
  show ?thesis
  proof (cases "microsecond dt = 0")
    case True
    have "fromisoformat (zero_pad 4 (year dt) @ ''-'' @ zero_pad 2 (month dt) @ ''-''
        @ zero_pad 2 (day dt) @ ''T'' @ zero_pad 2 (hour dt) @ '':'' @ zero_pad 2 (minute dt)
        @ '':'' @ zero_pad 2 (second dt))
      = Some \<lparr>year = int (nat (year dt)), month = int (nat (month dt)), day = int (nat (day dt)),
          hour = int (nat (hour dt)), minute = int (nat (minute dt)), second = int (nat (second dt)),
          microsecond = 0\<rparr>"
      by (rule fromisoformat_whole_seconds) (simp_all add: len val)
    with True same show ?thesis by (simp add: isoformat_def)
  next
    case False
    have "fromisoformat (zero_pad 4 (year dt) @ ''-'' @ zero_pad 2 (month dt) @ ''-''
        @ zero_pad 2 (day dt) @ ''T'' @ zero_pad 2 (hour dt) @ '':'' @ zero_pad 2 (minute dt)
        @ '':'' @ zero_pad 2 (second dt) @ ''.'' @ zero_pad 6 (microsecond dt))
      = Some \<lparr>year = int (nat (year dt)), month = int (nat (month dt)), day = int (nat (day dt)),
          hour = int (nat (hour dt)), minute = int (nat (minute dt)), second = int (nat (second dt)),
          microsecond = int (nat (microsecond dt))\<rparr>"
      by (rule fromisoformat_microseconds)
         (simp_all add: len val zero_pad_length[OF b(13,14)] zero_pad_value[OF b(13)])
    with False same b(13) show ?thesis by (simp add: isoformat_def)
  qed
qed

subsection \<open>The evaluate payload\<close>

lemma evaluate_payload_given:
  assumes "ts \<noteq> PNone"
  shows "evaluate_payload E score ts votes reps =
     Inr (PDict [(PStr ''previous_score'', score), (PStr ''previous_timestamp'', ts),
                 (PStr ''votes'', if votes = PNone then PList [] else votes),
                 (PStr ''reputations'', if reps = PNone then PList [] else reps)])"
  using assms by (simp add: evaluate_payload_def)

lemma evaluate_payload_clock:
  assumes "sub_one_hour (datetime_now E) = Inr dt"
  shows "evaluate_payload E score PNone votes reps =
     Inr (PDict [(PStr ''previous_score'', score), (PStr ''previous_timestamp'', PStr (isoformat dt)),
                 (PStr ''votes'', if votes = PNone then PList [] else votes),
                 (PStr ''reputations'', if reps = PNone then PList [] else reps)])"
  using assms by (simp add: evaluate_payload_def)

lemma sub_one_hour_after_midnight:
  "sub_one_hour after_midnight =
     Inr \<lparr>year = 2024, month = 2, day = 29, hour = 23, minute = 30, second = 15,
          microsecond = 250000\<rparr>"
  by (simp add: sub_one_hour_def normalize_pair_def normalize_date_def days_in_month_def
        is_leap_def after_midnight_def)

lemma isoformat_leap_day:
  "isoformat \<lparr>year = 2024, month = 2, day = 29, hour = 23, minute = 30, second = 15,
          microsecond = 250000\<rparr> = ''2024-02-29T23:30:15.250000''"
  by (simp add: isoformat_def zero_pad_def str_int_def str_nat.simps digit_char_def char_eval)

lemma valid_after_midnight: "valid_datetime after_midnight"
  by (simp add: valid_datetime_def after_midnight_def days_in_month_def is_leap_def)


subsection \<open>The legacy wrapper\<close>

lemma agreement_votes_length:
  "length (agreement_votes eq ps rs) = min (length ps) (length rs)"
  by (simp add: agreement_votes_def)

lemma agreement_votes_nth:
  assumes "i < length ps" "i < length rs"
  shows "agreement_votes eq ps rs ! i = PFloat (Finite (if eq (ps ! i) (rs ! i) then 1 else 0))"
  using assms by (simp add: agreement_votes_def)

lemma agreement_votes_take:
  "agreement_votes eq (take n ps) (take n rs) = take n (agreement_votes eq ps rs)"
  by (simp add: agreement_votes_def take_map take_zip)

lemma legacy_evaluate_model_lists:
  "legacy_evaluate_model E eq (PList ps) (PList rs) key =
     evaluate_model E (GrandJuryClient_init key API_BASE_URL) default_previous_score PNone
       (PList (agreement_votes eq ps rs))
       (PList (replicate (min (length ps) (length rs)) (PFloat (Finite 1))))"
  by (simp add: legacy_evaluate_model_def list_items_def Let_def agreement_votes_length)

lemma evaluate_model_score_reply:
  "evaluate_model (bare_runtime [] score_reply after_midnight) self score PNone votes reps
     = Inr (PDict [(PStr ''score'', PFloat (Finite (9 / 10)))])"
proof -
  let ?E = "bare_runtime [] score_reply after_midnight"
  have now: "datetime_now ?E = after_midnight" by (simp add: bare_runtime_def)
  obtain p where p: "evaluate_payload ?E score PNone votes reps = Inr p"
    using evaluate_payload_clock[of ?E _ score votes reps] sub_one_hour_after_midnight now
    by simp
  have "post_request ?E self ''evaluate'' p = Inr score_reply"
    by (simp add: post_request_def bare_runtime_def)
  then have "make_request ?E self ''evaluate'' p = response_json score_reply"
    by (simp add: make_request_def score_reply_def)
  with p show ?thesis by (simp add: evaluate_model_def score_reply_def)
qed

subsection \<open>Records read from CSV text\<close>

lemma dict_set_all:
  assumes "list_all P d" "P (k, v)"
  shows "list_all P (dict_set d k v)"
  using assms by (induction d) auto

lemma coerce_cell_scalar: "is_scalar (coerce_cell E v)"
  by (simp add: coerce_cell_def is_scalar_def split: option.splits)

lemma foldl_dict_set_cells:
  assumes "list_all (\<lambda>(k, v). is_text v \<longrightarrow> is_text k) d"
  shows "list_all (\<lambda>(k, v). is_text v \<longrightarrow> is_text k)
           (foldl (\<lambda>d (k, v). dict_set d (PStr k) (PStr v)) d kvs)"
  using assms
proof (induction kvs arbitrary: d)
  case Nil
  then show ?case by simp
next
  case (Cons kv kvs)
  obtain k v where kv: "kv = (k, v)" by (cases kv)
  have "list_all (\<lambda>(k, v). is_text v \<longrightarrow> is_text k) (dict_set d (PStr k) (PStr v))"
    using Cons.prems by (rule dict_set_all) (simp add: is_text_def)
  then show ?case using Cons.IH kv by simp
qed

lemma foldl_dict_set_missing:
  assumes "list_all (\<lambda>(k, v). is_text v \<longrightarrow> is_text k) d"
  shows "list_all (\<lambda>(k, v). is_text v \<longrightarrow> is_text k)
           (foldl (\<lambda>d k. dict_set d (PStr k) PNone) d ks)"
  using assms
proof (induction ks arbitrary: d)
  case Nil
  then show ?case by simp
next
  case (Cons k ks)
  have "list_all (\<lambda>(k, v). is_text v \<longrightarrow> is_text k) (dict_set d (PStr k) PNone)"
    using Cons.prems by (rule dict_set_all) (simp add: is_text_def)
  then show ?case using Cons.IH by simp
qed

lemma row_dict_keys:
  "list_all (\<lambda>(k, v). is_text v \<longrightarrow> is_text k) (row_dict fieldnames row)"
proof -
  let ?Q = "\<lambda>(k, v). is_text v \<longrightarrow> is_text k"
  let ?d = "foldl (\<lambda>d (k, v). dict_set d (PStr k) (PStr v)) [] (zip fieldnames row)"
  have d: "list_all ?Q ?d" by (rule foldl_dict_set_cells) simp
  have long: "list_all ?Q (dict_set ?d PNone (PList (map PStr (drop (length fieldnames) row))))"
    using d by (rule dict_set_all) (simp add: is_text_def)
  have short: "list_all ?Q (foldl (\<lambda>d k. dict_set d (PStr k) PNone) ?d (drop (length row) fieldnames))"
    using d by (rule foldl_dict_set_missing)
  show ?thesis
    unfolding row_dict_def Let_def using d long short by simp
qed

lemma process_items_record:
  assumes "process_items E acc items = Inr d"
      and "list_all (\<lambda>(k, x). is_text k \<and> is_scalar x) acc"
      and "list_all (\<lambda>(k, v). is_text v \<longrightarrow> is_text k) items"
  shows "list_all (\<lambda>(k, x). is_text k \<and> is_scalar x) d"
  using assms
proof (induction items arbitrary: acc)
  case Nil
  then show ?case by simp
next
  case (Cons kv items)
  obtain k v where kv: "kv = (k, v)" by (cases kv)
  from Cons.prems(1) kv obtain t where t: "v = PStr t"
    by (cases v) simp_all
  with Cons.prems(3) kv have k: "is_text k" by (simp add: is_text_def)
  have stored: "list_all (\<lambda>(k, x). is_text k \<and> is_scalar x) (dict_set acc k (coerce_cell E t))"
    using Cons.prems(2) by (rule dict_set_all) (simp add: k coerce_cell_scalar)
  have rest: "process_items E (dict_set acc k (coerce_cell E t)) items = Inr d"
    using Cons.prems(1) kv t by simp
  have items: "list_all (\<lambda>(k, v). is_text v \<longrightarrow> is_text k) items"
    using Cons.prems(3) by simp
  show ?case by (rule Cons.IH[OF rest stored items])
qed

lemma process_rows_records:
  "process_rows E fieldnames ls = Inr rs \<Longrightarrow> list_all is_record rs"
proof (induction E fieldnames ls arbitrary: rs rule: process_rows.induct)
  case (1 E fieldnames ls)
  show ?case
  proof (cases "DictReader_next fieldnames ls")
    case (Inl e)
    with "1.prems" show ?thesis by (subst (asm) process_rows.simps) simp
  next
    case (Inr nxt)
    show ?thesis
    proof (cases nxt)
      case None
      with Inr "1.prems" show ?thesis by (subst (asm) process_rows.simps) simp
    next
      case (Some a)
      obtain row rest where a: "a = (row, rest)" by (cases a)
      note n = Inr[unfolded Some a]
      from "1.prems" n obtain processed_row records where
        p: "process_items E [] row = Inr processed_row"
        and r: "process_rows E fieldnames rest = Inr records"
        and rs: "rs = PDict processed_row # records"
        by (subst (asm) process_rows.simps) (auto split: sum.splits)
      from n obtain cells where "row = row_dict fieldnames cells"
        by (auto simp: DictReader_next_def split: sum.splits option.splits)
      then have cells: "list_all (\<lambda>(k, v). is_text v \<longrightarrow> is_text k) row"
        by (simp add: row_dict_keys)
      have "list_all (\<lambda>(k, x). is_text k \<and> is_scalar x) processed_row"
        by (rule process_items_record[OF p _ cells]) simp
      then have "is_record (PDict processed_row)" by (simp add: is_record_def dict_items_def)
      moreover have "list_all is_record records"
        using "1.IH"[OF Inr Some a[symmetric] p r] .
      ultimately show ?thesis using rs by simp
    qed
  qed
qed

lemma read_csv_text_records:
  "read_csv_text E content = Inr rs \<Longrightarrow> list_all is_record rs"
  by (auto simp: read_csv_text_def split: sum.splits option.splits dest: process_rows_records)

lemma parse_csv_records:
  assumes "\<not> HAS_PANDAS E" "parse_csv E p = Inr result"
  shows "is_record_sequence result"
  using assms
  by (auto simp: parse_csv_def is_record_sequence_def list_items_def
        split: sum.splits dest: read_csv_text_records)

subsection \<open>Running the reader on small texts\<close>

lemmas csv_machine = parse_process_char_def start_field_def parse_add_char_def parse_save_field_def
  is_newline_def field_limit_def parse_reset_def reader_next_def

lemmas csv_rows = read_csv_text_def next_nonblank.simps process_rows.simps DictReader_next_def
  row_dict_def coerce_cell_def py_lower_def lower_char_def

lemma read_blank_row_csv:
  "read_csv_text E blank_row_csv = Inr [PDict [(PStr ''x'', PNone)]]"
  by (simp add: blank_row_csv_def csv_rows csv_machine char_eval)

lemma read_quoted_empty_csv:
  "read_csv_text E quoted_empty_csv = Inr [PDict [(PStr ''x'', PNone)], PDict [(PStr ''x'', PNone)]]"
  by (simp add: quoted_empty_csv_def csv_rows csv_machine char_eval)

lemma read_empty_cell_csv:
  "read_csv_text E empty_cell_csv = Inr [PDict [(PStr ''x'', PNone), (PStr ''y'', PNone)]]"
  by (simp add: empty_cell_csv_def csv_rows csv_machine char_eval)

lemma read_numbers_csv:
  "read_csv_text (bare_runtime numbers_csv server_error after_midnight) numbers_csv
     = Inr [PDict [(PStr ''a'', PInt 1), (PStr ''b'', PFloat (Finite (5 / 2)))]]"
  by (simp add: numbers_csv_def csv_rows csv_machine char_eval bare_runtime_def
        decimal_int_def decimal_float_def decimal_nat_def digit_value_def)

lemma read_flags_csv:
  "read_csv_text E flags_csv = Inr [PDict [(PStr ''flag'', PBool True)], PDict [(PStr ''flag'', PBool False)]]"
  by (simp add: flags_csv_def csv_rows csv_machine char_eval)

lemma suffix_votes_csv: "py_lower (path_suffix ''votes.csv'') = ''.csv''"
  by (simp add: path_suffix_def path_name_def py_lower_def lower_char_def char_eval)

lemma parse_input_plain_csv:
  assumes "\<not> HAS_PANDAS E" "py_lower (path_suffix p) = ''.csv''" "open_text E p = Inr content"
  shows "parse_input E (PStr p) = map_sum id PList (read_csv_text E content)"
  using assms
  by (cases "read_csv_text E content")
     (simp_all add: parse_input_def path_text_def parse_file_def parse_csv_def)

subsection \<open>Rows as read and rows as stored\<close>

lemma coerce_cell_eq: "coerce_cell E v = coerce_by_priority E v"
  unfolding coerce_cell_def coerce_by_priority_def ci_true ci_false ci_none
  by (auto split: option.splits)

lemma dict_set_map_fst:
  "map fst (dict_set d k v) = (if k \<in> set (map fst d) then map fst d else map fst d @ [k])"
  by (induction d) (force simp: image_iff)+

lemma dict_set_distinct:
  "distinct (map fst d) \<Longrightarrow> distinct (map fst (dict_set d k v))"
  by (simp add: dict_set_map_fst)

lemma dict_set_fresh:
  "k \<notin> set (map fst d) \<Longrightarrow> dict_set d k v = d @ [(k, v)]"
  by (induction d) auto

lemma foldl_dict_set_distinct:
  "distinct (map fst d) \<Longrightarrow>
   distinct (map fst (foldl (\<lambda>d (k, v). dict_set d (PStr k) (PStr v)) d kvs))"
  by (induction kvs arbitrary: d) (auto simp: dict_set_distinct)

lemma foldl_dict_set_missing_distinct:
  "distinct (map fst d) \<Longrightarrow>
   distinct (map fst (foldl (\<lambda>d k. dict_set d (PStr k) PNone) d ks))"
  by (induction ks arbitrary: d) (auto simp: dict_set_distinct)

lemma row_dict_distinct: "distinct (map fst (row_dict fieldnames row))"
  by (simp add: row_dict_def Let_def dict_set_distinct foldl_dict_set_distinct
        foldl_dict_set_missing_distinct)

lemma process_items_text_row:
  assumes "distinct (map fst cells)" "set (map fst cells) \<inter> set (map fst acc) = {}"
  shows "process_items E acc (text_row cells)
       = Inr (acc @ map (\<lambda>(k, t). (k, coerce_by_priority E t)) cells)"
  using assms
proof (induction cells arbitrary: acc)
  case Nil
  then show ?case by (simp add: text_row_def)
next
  case (Cons c cells)
  obtain k t where c: "c = (k, t)" by (cases c)
  from Cons.prems c have fresh: "k \<notin> set (map fst acc)" by auto
  let ?acc = "acc @ [(k, coerce_by_priority E t)]"
  have "process_items E acc (text_row (c # cells)) = process_items E ?acc (text_row cells)"
    by (simp add: c text_row_def coerce_cell_eq dict_set_fresh[OF fresh])
  also have "\<dots> = Inr (?acc @ map (\<lambda>(k, t). (k, coerce_by_priority E t)) cells)"
    using Cons.prems c by (intro Cons.IH) auto
  finally show ?case by (simp add: c)
qed

lemma process_items_all_text:
  "process_items E acc items = Inr d \<Longrightarrow> \<exists>cells. items = text_row cells"
proof (induction items arbitrary: acc)
  case Nil
  show ?case by (rule exI[of _ "[]"]) (simp add: text_row_def)
next
  case (Cons kv items)
  obtain k v where kv: "kv = (k, v)" by (cases kv)
  from Cons.prems kv obtain t where t: "v = PStr t" by (cases v) simp_all
  with Cons.prems kv have "process_items E (dict_set acc k (coerce_cell E t)) items = Inr d" by simp
  then obtain cells where "items = text_row cells" using Cons.IH by blast
  then have "kv # items = text_row ((k, t) # cells)" by (simp add: kv t text_row_def)
  then show ?case by blast
qed

lemma text_row_keys: "map fst (text_row cells) = map fst cells"
  by (induction cells) (auto simp: text_row_def)

lemma process_items_coerces:
  assumes "distinct (map fst row)"
  shows "process_items E [] row = Inr d \<longleftrightarrow>
           (\<exists>cells. row = text_row cells \<and> PDict d = coerced_row E cells)"
proof
  assume p: "process_items E [] row = Inr d"
  then obtain cells where c: "row = text_row cells" using process_items_all_text by blast
  with assms have "distinct (map fst cells)" by (simp add: text_row_keys)
  then have "process_items E [] (text_row cells)
      = Inr ([] @ map (\<lambda>(k, t). (k, coerce_by_priority E t)) cells)"
    by (rule process_items_text_row) simp
  with p c have "PDict d = coerced_row E cells" by (simp add: coerced_row_def)
  with c show "\<exists>cells. row = text_row cells \<and> PDict d = coerced_row E cells" by blast
next
  assume "\<exists>cells. row = text_row cells \<and> PDict d = coerced_row E cells"
  then obtain cells where c: "row = text_row cells" "PDict d = coerced_row E cells" by blast
  with assms have "distinct (map fst cells)" by (simp add: text_row_keys)
  then have "process_items E [] (text_row cells)
      = Inr ([] @ map (\<lambda>(k, t). (k, coerce_by_priority E t)) cells)"
    by (rule process_items_text_row) simp
  with c show "process_items E [] row = Inr d" by (simp add: coerced_row_def)
qed

lemma DictReader_next_distinct:
  "DictReader_next fieldnames ls = Inr (Some (row, rest)) \<Longrightarrow> distinct (map fst row)"
  by (auto simp: DictReader_next_def row_dict_distinct split: sum.splits option.splits)


lemma process_items_coerced:
  assumes "distinct (map fst cells)"
  shows "process_items E [] (text_row cells) = Inr (map (\<lambda>(k, t). (k, coerce_by_priority E t)) cells)"
  using process_items_text_row[of cells "[]" E] assms by simp

lemma process_rows_read:
  "process_rows E fieldnames ls = Inr rs \<Longrightarrow>
   \<exists>cells. DictReader_rows fieldnames ls = Inr (map text_row cells)
         \<and> rs = map (coerced_row E) cells"
proof (induction E fieldnames ls arbitrary: rs rule: process_rows.induct)
  case (1 E fieldnames ls)
  show ?case
  proof (cases "DictReader_next fieldnames ls")
    case (Inl e)
    with "1.prems" show ?thesis by (subst (asm) process_rows.simps) simp
  next
    case (Inr nxt)
    show ?thesis
    proof (cases nxt)
      case None
      with "1.prems" Inr have "rs = []" by (subst (asm) process_rows.simps) simp
      moreover from None Inr have "DictReader_rows fieldnames ls = Inr []"
        by (subst DictReader_rows.simps) simp
      ultimately show ?thesis by (intro exI[of _ "[]"]) simp
    next
      case (Some a)
      obtain row rest where a: "a = (row, rest)" by (cases a)
      from "1.prems" Inr Some a obtain d rs' where
        d: "process_items E [] row = Inr d" and
        r: "process_rows E fieldnames rest = Inr rs'" and
        rs: "rs = PDict d # rs'"
        by (subst (asm) process_rows.simps) (auto split: sum.splits)
      from Inr Some a have "distinct (map fst row)" by (auto dest: DictReader_next_distinct)
      with d obtain c where c: "row = text_row c" "PDict d = coerced_row E c"
        using process_items_coerces by blast
      from "1.IH"[OF Inr Some a[symmetric] d r] obtain cells where
        cells: "DictReader_rows fieldnames rest = Inr (map text_row cells)"
               "rs' = map (coerced_row E) cells"
        by blast
      from Inr Some a cells(1) c(1)
      have "DictReader_rows fieldnames ls = Inr (map text_row (c # cells))"
        by (subst DictReader_rows.simps) simp
      moreover from rs c(2) cells(2) have "rs = map (coerced_row E) (c # cells)" by simp
      ultimately show ?thesis by blast
    qed
  qed
qed

lemma process_rows_of_read:
  "DictReader_rows fieldnames ls = Inr (map text_row cells) \<Longrightarrow>
   process_rows E fieldnames ls = Inr (map (coerced_row E) cells)"
proof (induction E fieldnames ls arbitrary: cells rule: process_rows.induct)
  case (1 E fieldnames ls)
  show ?case
  proof (cases "DictReader_next fieldnames ls")
    case (Inl e)
    with "1.prems" show ?thesis by (subst (asm) DictReader_rows.simps) simp
  next
    case (Inr nxt)
    show ?thesis
    proof (cases nxt)
      case None
      with "1.prems" Inr have "cells = []" by (subst (asm) DictReader_rows.simps) simp
      moreover from None Inr have "process_rows E fieldnames ls = Inr []"
        by (subst process_rows.simps) simp
      ultimately show ?thesis by simp
    next
      case (Some a)
      obtain row rest where a: "a = (row, rest)" by (cases a)
      from "1.prems" Inr Some a obtain rows' where
        r: "DictReader_rows fieldnames rest = Inr rows'" and
        m: "map text_row cells = row # rows'"
        by (subst (asm) DictReader_rows.simps) (auto split: sum.splits)
      from m obtain c cells' where c: "cells = c # cells'" "row = text_row c"
        "rows' = map text_row cells'"
        by (cases cells) auto
      from Inr Some a have "distinct (map fst row)" by (auto dest: DictReader_next_distinct)
      with c(2) have "distinct (map fst c)" by (simp add: text_row_keys)
      then have d: "process_items E [] row = Inr (map (\<lambda>(k, t). (k, coerce_by_priority E t)) c)"
        unfolding c(2) by (rule process_items_coerced)
      from r c(3) have "DictReader_rows fieldnames rest = Inr (map text_row cells')" by simp
      from "1.IH"[OF Inr Some a[symmetric] d this]
      have "process_rows E fieldnames rest = Inr (map (coerced_row E) cells')" .
      with Inr Some a d c(1) show ?thesis
        by (subst process_rows.simps) (simp add: coerced_row_def)
    qed
  qed
qed

lemma read_csv_text_coerces:
  "read_csv_text E content = Inr rs \<longleftrightarrow>
     (\<exists>cells. rows_read content = Inr (map text_row cells) \<and> rs = map (coerced_row E) cells)"
proof (cases "reader_next (file_lines [] content)")
  case (Inl e)
  then show ?thesis by (simp add: read_csv_text_def rows_read_def)
next
  case (Inr nxt)
  show ?thesis
  proof (cases nxt)
    case None
    with Inr show ?thesis by (auto simp: read_csv_text_def rows_read_def)
  next
    case (Some a)
    obtain fieldnames rest where a: "a = (fieldnames, rest)" by (cases a)
    with Inr Some have
      "read_csv_text E content = process_rows E fieldnames rest"
      "rows_read content = DictReader_rows fieldnames rest"
      by (simp_all add: read_csv_text_def rows_read_def)
    then show ?thesis
      by (auto dest: process_rows_read simp: process_rows_of_read)
  qed
qed

lemma rows_read_numbers_csv:
  "rows_read numbers_csv = Inr [text_row [(PStr ''a'', ''1''), (PStr ''b'', ''2.5'')]]"
  by (simp add: numbers_csv_def rows_read_def DictReader_rows.simps next_nonblank.simps
        DictReader_next_def row_dict_def text_row_def csv_machine char_eval)

subsection \<open>The dispatch and the conversion of dataframes\<close>

lemma list_not_path: "isinstance_list data \<Longrightarrow> path_text data = None"
  by (auto simp: isinstance_list_def list_items_def path_text_def split: pyval.splits)

lemma dict_not_path: "isinstance_dict data \<Longrightarrow> path_text data = None"
  by (auto simp: isinstance_dict_def dict_items_def path_text_def split: pyval.splits)

lemma dict_not_list: "isinstance_dict data \<Longrightarrow> \<not> isinstance_list data"
  by (auto simp: isinstance_dict_def dict_items_def isinstance_list_def list_items_def
        split: pyval.splits)


lemma convert_records_dicts:
  "convert_records E rows = Inr rs \<Longrightarrow> list_all (\<lambda>r. \<exists>d. r = PDict d) rs"
proof (induction rows arbitrary: rs)
  case Nil
  then show ?case by simp
next
  case (Cons r rows)
  from Cons.prems obtain d rs' where "convert_records E rows = Inr rs'" "rs = PDict d # rs'"
    by (auto split: sum.splits)
  with Cons.IH show ?case by simp
qed

lemma pandas_to_records_list:
  "pandas_to_records E df = Inr result \<Longrightarrow>
   \<exists>rs. result = PList rs \<and> list_all (\<lambda>r. \<exists>d. r = PDict d) rs"
  by (auto simp: pandas_to_records_def split: sum.splits if_splits dest: convert_records_dicts)


lemma convert_record_scalars:
  assumes "HAS_PANDAS E" "convert_record E acc r = Inr d"
    "list_all (\<lambda>(k, x). is_text k \<and> is_scalar x) acc"
    "list_all (\<lambda>(k, c). is_text k \<and> cell_gives_scalar c) r"
  shows "list_all (\<lambda>(k, x). is_text k \<and> is_scalar x) d"
  using assms(2-)
proof (induction r arbitrary: acc)
  case Nil
  then show ?case by simp
next
  case (Cons kc r)
  obtain k c where kc: "kc = (k, c)" by (cases kc)
  from Cons.prems(1) kc assms(1) obtain na where na: "cell_isna c = Inr na"
    by (cases "cell_isna c") simp_all
  let ?x = "if na then PNone else (case cell_item c of Some x \<Rightarrow> x | None \<Rightarrow> cell_value c)"
  from Cons.prems(1) kc assms(1) na
  have rest: "convert_record E (dict_set acc k ?x) r = Inr d" by simp
  from Cons.prems(3) kc na have "is_text k" "is_scalar ?x"
    by (auto simp: cell_gives_scalar_def is_scalar_def split: option.splits)
  then have "list_all (\<lambda>(k, x). is_text k \<and> is_scalar x) (dict_set acc k ?x)"
    using Cons.prems(2) by (intro dict_set_all) simp_all
  with rest Cons.prems(3) show ?case by (intro Cons.IH) simp_all
qed

lemma convert_records_records:
  assumes "HAS_PANDAS E" "convert_records E rows = Inr rs" "rows_give_records rows"
  shows "list_all is_record rs"
  using assms(2-)
proof (induction rows arbitrary: rs)
  case Nil
  then show ?case by simp
next
  case (Cons r rows)
  from Cons.prems(1) obtain d rs' where d: "convert_record E [] r = Inr d"
    and r: "convert_records E rows = Inr rs'" and rs: "rs = PDict d # rs'"
    by (auto split: sum.splits)
  from Cons.prems(2) have g: "list_all (\<lambda>(k, c). is_text k \<and> cell_gives_scalar c) r"
    "rows_give_records rows"
    by (simp_all add: rows_give_records_def)
  have "list_all (\<lambda>(k, x). is_text k \<and> is_scalar x) d"
    by (rule convert_record_scalars[OF assms(1) d _ g(1)]) simp
  then have "is_record (PDict d)" by (simp add: is_record_def dict_items_def)
  with Cons.IH[OF r g(2)] rs show ?case by simp
qed

lemma pandas_to_records_result:
  assumes "HAS_PANDAS E" "pandas_to_records E df = Inr result"
  shows "\<exists>rows. where_notna_records E df = Inr rows
           \<and> is_mapping_sequence result
           \<and> (rows_give_records rows \<longrightarrow> is_record_sequence result)"
proof -
  from assms obtain rows rs where rows: "where_notna_records E df = Inr rows"
    and rs: "convert_records E rows = Inr rs" and result: "result = PList rs"
    by (auto simp: pandas_to_records_def split: sum.splits)
  from rs have "list_all (\<lambda>r. \<exists>d. r = PDict d) rs" by (rule convert_records_dicts)
  then have "list_all is_mapping rs"
    by (induction rs) (auto simp: is_mapping_def dict_items_def)
  with result have m: "is_mapping_sequence result"
    by (simp add: is_mapping_sequence_def list_items_def)
  have "is_record_sequence result" if "rows_give_records rows"
    using convert_records_records[OF assms(1) rs that] result
    by (simp add: is_record_sequence_def list_items_def)
  with rows m show ?thesis by blast
qed

lemma parse_input_frame:
  assumes "parse_input E data = Inr result" "pandas_frame_of E data = Some df"
  shows "HAS_PANDAS E \<and> pandas_to_records E df = Inr result"
proof (cases "path_text data")
  case None
  with assms(2) have t: "\<not> taken_as_polars E data" "taken_as_pandas E data" "df = data"
    by (simp_all add: pandas_frame_of_def split: if_splits)
  with assms(1) None show ?thesis
    by (simp add: parse_input_def parse_pandas_def taken_as_pandas_def)
next
  case (Some p)
  with assms(2) have pandas: "HAS_PANDAS E"
    by (simp add: pandas_frame_of_def split: if_splits)
  show ?thesis
  proof (cases "py_lower (path_suffix p) = ''.csv''")
    case True
    with assms Some pandas show ?thesis
      by (simp add: pandas_frame_of_def parse_input_def parse_file_def parse_csv_def
            split: sum.splits)
  next
    case False
    with assms Some pandas show ?thesis
      by (simp add: pandas_frame_of_def parse_input_def parse_file_def parse_parquet_def
            split: sum.splits if_splits)
  qed
qed

lemma parse_input_library:
  assumes "parse_input E data = Inr result" "library_value E data = Some r"
  shows "r = Inr result"
proof (cases "path_text data")
  case None
  with assms show ?thesis
    by (simp add: library_value_def parse_input_def parse_polars_def split: if_splits)
next
  case (Some p)
  with assms show ?thesis
    by (simp add: library_value_def parse_input_def parse_file_def parse_parquet_def
          split: if_splits)
qed

lemma parse_input_sequence:
  assumes "parse_input E data = Inr result" "library_value E data = None"
  shows "is_sequence result"
proof (cases "path_text data")
  case None
  note path = None
  from assms(2) None have polars: "\<not> taken_as_polars E data"
    by (simp add: library_value_def split: if_splits)
  show ?thesis
  proof (cases "taken_as_pandas E data")
    case True
    with assms(1) path polars have "pandas_to_records E data = Inr result"
      by (simp add: parse_input_def parse_pandas_def)
    then show ?thesis
      by (auto dest: pandas_to_records_list simp: is_sequence_def list_items_def)
  next
    case False
    with assms(1) path polars show ?thesis
      by (auto simp: parse_input_def is_sequence_def isinstance_list_def list_items_def
            split: if_splits)
  qed
next
  case (Some p)
  show ?thesis
  proof (cases "py_lower (path_suffix p) = ''.csv''")
    case True
    with assms(1) Some have c: "parse_csv E p = Inr result"
      by (simp add: parse_input_def parse_file_def)
    show ?thesis
    proof (cases "HAS_PANDAS E")
      case True
      with c show ?thesis
        by (auto simp: parse_csv_def is_sequence_def list_items_def split: sum.splits
              dest: pandas_to_records_list)
    next
      case False
      with c show ?thesis
        by (auto simp: parse_csv_def is_sequence_def list_items_def split: sum.splits)
    qed
  next
    case False
    with assms(1) Some have q: "parse_parquet E p = Inr result"
      "py_lower (path_suffix p) \<in> set [''.parquet'', ''.pq'']"
      by (simp_all add: parse_input_def parse_file_def Let_def split: if_splits)
    show ?thesis
    proof (cases "HAS_PANDAS E")
      case True
      with q(1) show ?thesis
        by (auto simp: parse_parquet_def is_sequence_def list_items_def split: sum.splits
              dest: pandas_to_records_list)
    next
      case pandas: False
      with q(1) have "HAS_PYARROW E" by (simp add: parse_parquet_def split: if_splits)
      with assms(2) Some False q(2) pandas show ?thesis
        by (simp add: library_value_def)
    qed
  qed
qed

lemmas dispatch_tests = path_text_def taken_as_polars_def taken_as_pandas_def module_text_def
  module_has_def has_to_dict_def isinstance_list_def isinstance_dict_def list_items_def
  dict_items_def

lemmas library_fields = library_runtime_def bare_runtime_def

lemma suffix_votes_parquet: "py_lower (path_suffix ''votes.parquet'') = ''.parquet''"
  by (simp add: path_suffix_def path_name_def py_lower_def lower_char_def char_eval)

section \<open>The request dispatcher\<close>

text \<open>
  Claim C1. Whatever response the transport hands back for an endpoint and a payload:
  a status other than 200 makes the dispatcher raise an exception whose message holds
  the decimal status code and the body text as they are, and a status of 200 makes it
  return what decoding the body as JSON gives.
\<close>

theorem make_request_status:
  assumes "post_request E self endpoint payload = Inr r"
  shows "(status_code r \<noteq> 200 \<longrightarrow>
            make_request E self endpoint payload
              = Inl (Exception (api_error_message (status_code r) (response_text r)))
            \<and> sublist (str_int (status_code r)) (api_error_message (status_code r) (response_text r))
            \<and> sublist (response_text r) (api_error_message (status_code r) (response_text r)))
       \<and> (status_code r = 200 \<longrightarrow> make_request E self endpoint payload = response_json r)"
proof (intro conjI impI)
  assume "status_code r \<noteq> 200"
  then show "make_request E self endpoint payload
      = Inl (Exception (api_error_message (status_code r) (response_text r)))"
    using assms by (simp add: make_request_def)
next
  show "sublist (str_int (status_code r)) (api_error_message (status_code r) (response_text r))"
    unfolding api_error_message_def by (rule sublist_appendI)
next
  have "api_error_message (status_code r) (response_text r)
      = (''API Error ('' @ str_int (status_code r) @ ''): '') @ response_text r"
    by (simp add: api_error_message_def)
  then show "sublist (response_text r) (api_error_message (status_code r) (response_text r))"
    by (simp only: sublist_append_leftI)
next
  assume "status_code r = 200"
  then show "make_request E self endpoint payload = response_json r"
    using assms by (simp add: make_request_def)
qed

theorem make_request_status_witness:
  "post_request (bare_runtime [] server_error after_midnight) (GrandJuryClient_init None API_BASE_URL)
       ''evaluate'' (PDict []) = Inr server_error
   \<and> make_request (bare_runtime [] server_error after_midnight) (GrandJuryClient_init None API_BASE_URL)
       ''evaluate'' (PDict []) = Inl (Exception ''API Error (500): server error'')
   \<and> sublist ''500'' ''API Error (500): server error''
   \<and> sublist ''server error'' ''API Error (500): server error''"
proof -
  let ?E = "bare_runtime [] server_error after_midnight"
  let ?c = "GrandJuryClient_init None API_BASE_URL"
  have h: "post_request ?E ?c ''evaluate'' (PDict []) = Inr server_error"
    by (simp add: post_request_def bare_runtime_def)
  have s: "status_code server_error = 500" "response_text server_error = ''server error''"
    by (simp_all add: server_error_def)
  have m: "api_error_message 500 ''server error'' = ''API Error (500): server error''"
    by (simp add: api_error_message_def str_int_500)
  from make_request_status[OF h] h show ?thesis
    by (simp add: s m str_int_500)
qed

section \<open>The input normalizer\<close>

text \<open>
  Claim C2. Read without pandas, a CSV file gives a result exactly when it opens and
  every row the dictionary reader hands over holds text cells only; the result is
  then the list of these rows, in order, each cell replaced by the value the
  priority order gives for its text: text equal to \<^verbatim>\<open>true\<close> or \<^verbatim>\<open>false\<close> up to case is
  that boolean; otherwise text equal to \<^verbatim>\<open>none\<close> up to case, or empty, is null;
  otherwise the integer parse when the text has no decimal point and the float parse
  when it has one; and the text itself, unchanged, when that parse fails.
\<close>

theorem parse_csv_coerces_cells:
  assumes "\<not> HAS_PANDAS E"
  shows "parse_csv E file_path = Inr result \<longleftrightarrow>
           (\<exists>content cells. open_text E file_path = Inr content
              \<and> rows_read content = Inr (map text_row cells)
              \<and> result = PList (map (coerced_row E) cells))"
proof (cases "open_text E file_path")
  case (Inl e)
  with assms show ?thesis by (simp add: parse_csv_def)
next
  case (Inr content)
  with assms have "parse_csv E file_path = map_sum id PList (read_csv_text E content)"
    by (cases "read_csv_text E content") (simp_all add: parse_csv_def)
  then have "parse_csv E file_path = Inr result \<longleftrightarrow>
      (\<exists>rs. read_csv_text E content = Inr rs \<and> result = PList rs)"
    by (cases "read_csv_text E content") auto
  with Inr show ?thesis by (auto simp: read_csv_text_coerces)
qed

theorem parse_csv_coerces_cells_witness:
  "parse_csv (bare_runtime numbers_csv server_error after_midnight) ''votes.csv''
     = Inr (PList [PDict [(PStr ''a'', PInt 1), (PStr ''b'', PFloat (Finite (5 / 2)))]])"
proof -
  let ?E = "bare_runtime numbers_csv server_error after_midnight"
  let ?cells = "[[(PStr ''a'', ''1''), (PStr ''b'', ''2.5'')]]"
  have pandas: "\<not> HAS_PANDAS ?E" by (simp add: bare_runtime_def)
  have "open_text ?E ''votes.csv'' = Inr numbers_csv
      \<and> rows_read numbers_csv = Inr (map text_row ?cells)
      \<and> PList [PDict [(PStr ''a'', PInt 1), (PStr ''b'', PFloat (Finite (5 / 2)))]]
          = PList (map (coerced_row ?E) ?cells)"
    by (simp add: rows_read_numbers_csv bare_runtime_def coerced_row_def coerce_by_priority_def
          case_insensitive_eq_def same_letter_def is_ascii_letter_def
          decimal_int_def decimal_float_def decimal_nat_def digit_value_def)
  then have "\<exists>content cells. open_text ?E ''votes.csv'' = Inr content
      \<and> rows_read content = Inr (map text_row cells)
      \<and> PList [PDict [(PStr ''a'', PInt 1), (PStr ''b'', PFloat (Finite (5 / 2)))]]
          = PList (map (coerced_row ?E) cells)"
    by (intro exI[of _ numbers_csv] exI[of _ ?cells])
  then show ?thesis by (rule parse_csv_coerces_cells[OF pandas, THEN iffD2])
qed

text \<open>
  Claim C3, as the code has it. Whatever input the normalizer accepts without
  raising, the result is of the kind its branch gives. A list, or an instance of a
  subclass of it that neither dataframe test takes, comes back as it is, and a
  dictionary, or such an instance of a subclass of it, as the one-element list
  holding it; their contents are not inspected. A CSV file read without pandas gives
  a list of Records. A dataframe that pandas converts, given by the caller or read by
  pandas from a CSV or Parquet file, gives a list of dictionaries, and a list of
  Records when every row pandas hands over has text labels and cells that are
  missing or scalar. For an object that the polars test takes and for a Parquet file
  read by pyarrow, the result is what \<^verbatim>\<open>to_dicts()\<close> or \<^verbatim>\<open>to_pylist()\<close> returned,
  unchanged; in every other case it is a list.
\<close>

theorem parse_input_result:
  assumes "parse_input E data = Inr result"
  shows "(case library_value E data of Some r \<Rightarrow> r = Inr result | None \<Rightarrow> is_sequence result)
       \<and> (isinstance_list data \<and> \<not> taken_as_polars E data \<and> \<not> taken_as_pandas E data
            \<longrightarrow> result = data)
       \<and> (isinstance_dict data \<and> \<not> taken_as_polars E data \<and> \<not> taken_as_pandas E data
            \<longrightarrow> result = PList [data])
       \<and> (\<forall>p. path_text data = Some p \<and> py_lower (path_suffix p) = ''.csv'' \<and> \<not> HAS_PANDAS E
            \<longrightarrow> is_record_sequence result)
       \<and> (\<forall>df. pandas_frame_of E data = Some df
            \<longrightarrow> (\<exists>rows. where_notna_records E df = Inr rows
                   \<and> is_mapping_sequence result
                   \<and> (rows_give_records rows \<longrightarrow> is_record_sequence result)))"
proof (intro conjI allI impI)
  show "case library_value E data of Some r \<Rightarrow> r = Inr result | None \<Rightarrow> is_sequence result"
    using assms by (cases "library_value E data")
      (simp_all add: parse_input_sequence parse_input_library)
next
  assume "isinstance_list data \<and> \<not> taken_as_polars E data \<and> \<not> taken_as_pandas E data"
  with assms show "result = data" by (simp add: parse_input_def list_not_path)
next
  assume "isinstance_dict data \<and> \<not> taken_as_polars E data \<and> \<not> taken_as_pandas E data"
  with assms show "result = PList [data]"
    by (simp add: parse_input_def dict_not_path dict_not_list)
next
  fix p
  assume a: "path_text data = Some p \<and> py_lower (path_suffix p) = ''.csv'' \<and> \<not> HAS_PANDAS E"
  with assms have "parse_csv E p = Inr result" by (simp add: parse_input_def parse_file_def)
  with a show "is_record_sequence result" by (intro parse_csv_records[of E p]) simp_all
next
  fix df
  assume "pandas_frame_of E data = Some df"
  with assms have "HAS_PANDAS E \<and> pandas_to_records E df = Inr result"
    by (rule parse_input_frame)
  then show "\<exists>rows. where_notna_records E df = Inr rows
                   \<and> is_mapping_sequence result
                   \<and> (rows_give_records rows \<longrightarrow> is_record_sequence result)"
    by (intro pandas_to_records_result) simp_all
qed

theorem parse_input_result_witness:
  "parse_input (bare_runtime empty_cell_csv server_error after_midnight) (PStr ''votes.csv'')
     = Inr (PList [PDict [(PStr ''x'', PNone), (PStr ''y'', PNone)]])
   \<and> is_record_sequence (PList [PDict [(PStr ''x'', PNone), (PStr ''y'', PNone)]])
   \<and> parse_input
        (library_runtime True False False (Inl (LibraryError ''polars is not installed''))
           (Inr voted_cells))
        data_frame
     = Inr (PList [PDict [(PStr ''vote'', PBool True), (PStr ''score'', PNone)]])
   \<and> is_record_sequence (PList [PDict [(PStr ''vote'', PBool True), (PStr ''score'', PNone)]])"
proof -
  let ?E = "bare_runtime empty_cell_csv server_error after_midnight"
  let ?r = "PList [PDict [(PStr ''x'', PNone), (PStr ''y'', PNone)]]"
  let ?F = "library_runtime True False False (Inl (LibraryError ''polars is not installed''))
           (Inr voted_cells)"
  let ?s = "PList [PDict [(PStr ''vote'', PBool True), (PStr ''score'', PNone)]]"
  have "parse_input ?E (PStr ''votes.csv'') = map_sum id PList (read_csv_text ?E empty_cell_csv)"
    by (rule parse_input_plain_csv) (simp_all add: bare_runtime_def suffix_votes_csv)
  then have e: "parse_input ?E (PStr ''votes.csv'') = Inr ?r"
    by (simp add: read_empty_cell_csv)
  have "path_text (PStr ''votes.csv'') = Some ''votes.csv''
      \<and> py_lower (path_suffix ''votes.csv'') = ''.csv'' \<and> \<not> HAS_PANDAS ?E"
    by (simp add: path_text_def suffix_votes_csv bare_runtime_def)
  with parse_input_result[OF e] have er: "is_record_sequence ?r" by blast
  have f: "parse_input ?F data_frame = Inr ?s"
    by (simp add: data_frame_def voted_cells_def parse_input_def dispatch_tests library_fields
          parse_pandas_def pandas_to_records_def)
  have frame: "pandas_frame_of ?F data_frame = Some data_frame"
    by (simp add: data_frame_def pandas_frame_of_def dispatch_tests library_fields)
  have rows: "where_notna_records ?F data_frame = Inr voted_cells"
    by (simp add: library_fields)
  have gives: "rows_give_records voted_cells"
    by (simp add: voted_cells_def rows_give_records_def cell_gives_scalar_def is_text_def
          is_scalar_def)
  from parse_input_result[OF f] frame obtain rows' where
    "where_notna_records ?F data_frame = Inr rows'"
    "rows_give_records rows' \<longrightarrow> is_record_sequence ?s"
    by blast
  with rows gives have fr: "is_record_sequence ?s" by simp
  from e er f fr show ?thesis by simp
qed

text \<open>
  The claim as worded asks for a sequence of Records in every accepted case. A
  dictionary with a list among its values is accepted, alone or in a list, and comes
  back as an element that is not a Record; so does a row with such a value in a
  dataframe given to pandas, in a Parquet file read by pandas, in a polars dataframe
  and in a Parquet file read by pyarrow. A list of integers comes back as it is, no
  sequence of mappings. An object from a module named \<^verbatim>\<open>polars_ext\<close> is taken by the
  polars test, and when its \<^verbatim>\<open>to_dicts()\<close> returns one dictionary, that dictionary is
  the result, unwrapped.
\<close>

theorem parse_input_beyond_records:
  "parse_input (bare_runtime [] server_error after_midnight) tagged_row = Inr (PList [tagged_row])
   \<and> parse_input (bare_runtime [] server_error after_midnight) (PList [tagged_row])
       = Inr (PList [tagged_row])
   \<and> parse_input
        (library_runtime True False False (Inl (LibraryError ''polars is not installed''))
           (Inr tagged_cells))
        data_frame
       = Inr (PList [tagged_row])
   \<and> parse_input
        (library_runtime True False False (Inl (LibraryError ''polars is not installed''))
           (Inr tagged_cells))
        (PStr ''votes.parquet'')
       = Inr (PList [tagged_row])
   \<and> parse_input
        (library_runtime False True False (Inr (PList [tagged_row]))
           (Inl (LibraryError ''pandas is not installed'')))
        polars_frame
       = Inr (PList [tagged_row])
   \<and> parse_input
        (library_runtime False False True (Inr (PList [tagged_row]))
           (Inl (LibraryError ''pandas is not installed'')))
        (PStr ''votes.parquet'')
       = Inr (PList [tagged_row])
   \<and> \<not> is_record_sequence (PList [tagged_row])
   \<and> parse_input (bare_runtime [] server_error after_midnight) (PList [PInt 1])
       = Inr (PList [PInt 1])
   \<and> \<not> is_mapping_sequence (PList [PInt 1])
   \<and> parse_input
        (library_runtime False True False (Inr tagged_row)
           (Inl (LibraryError ''pandas is not installed'')))
        polars_like
       = Inr tagged_row
   \<and> \<not> is_sequence tagged_row"
proof (intro conjI)
  show "parse_input (bare_runtime [] server_error after_midnight) tagged_row
      = Inr (PList [tagged_row])"
    by (simp add: tagged_row_def parse_input_def dispatch_tests)
  show "parse_input (bare_runtime [] server_error after_midnight) (PList [tagged_row])
      = Inr (PList [tagged_row])"
    by (simp add: parse_input_def dispatch_tests)
  show "parse_input
        (library_runtime True False False (Inl (LibraryError ''polars is not installed''))
           (Inr tagged_cells))
        data_frame
       = Inr (PList [tagged_row])"
    by (simp add: data_frame_def tagged_cells_def tagged_row_def parse_input_def dispatch_tests
          library_fields parse_pandas_def pandas_to_records_def)
  show "parse_input
        (library_runtime True False False (Inl (LibraryError ''polars is not installed''))
           (Inr tagged_cells))
        (PStr ''votes.parquet'')
       = Inr (PList [tagged_row])"
    by (simp add: data_frame_def tagged_cells_def tagged_row_def parse_input_def path_text_def
          parse_file_def suffix_votes_parquet parse_parquet_def library_fields
          pandas_to_records_def)
  show "parse_input
        (library_runtime False True False (Inr (PList [tagged_row]))
           (Inl (LibraryError ''pandas is not installed'')))
        polars_frame
       = Inr (PList [tagged_row])"
    by (simp add: polars_frame_def parse_input_def dispatch_tests library_fields
          parse_polars_def sublist_code)
  show "parse_input
        (library_runtime False False True (Inr (PList [tagged_row]))
           (Inl (LibraryError ''pandas is not installed'')))
        (PStr ''votes.parquet'')
       = Inr (PList [tagged_row])"
    by (simp add: parse_input_def path_text_def parse_file_def suffix_votes_parquet
          parse_parquet_def library_fields)
  show "\<not> is_record_sequence (PList [tagged_row])"
    by (simp add: tagged_row_def is_record_sequence_def list_items_def is_record_def
          dict_items_def is_scalar_def is_text_def)
  show "parse_input (bare_runtime [] server_error after_midnight) (PList [PInt 1])
       = Inr (PList [PInt 1])"
    by (simp add: parse_input_def dispatch_tests)
  show "\<not> is_mapping_sequence (PList [PInt 1])"
    by (simp add: is_mapping_sequence_def list_items_def is_mapping_def dict_items_def)
  show "parse_input
        (library_runtime False True False (Inr tagged_row)
           (Inl (LibraryError ''pandas is not installed'')))
        polars_like
       = Inr tagged_row"
    by (simp add: polars_like_def parse_input_def dispatch_tests library_fields
          parse_polars_def sublist_code)
  show "\<not> is_sequence tagged_row"
    by (simp add: tagged_row_def is_sequence_def list_items_def)
qed







text \<open>
  Claim C9, as the code has it. Read without pandas, the CSV text of a header
  \<^verbatim>\<open>x\<close>, a row \<^verbatim>\<open>None\<close> and a blank line gives exactly one Record, \<open>x\<close> mapped to null,
  for the \<^verbatim>\<open>None\<close> row: the dictionary reader skips the blank line. When the last
  row is an empty string written in quotes, it gives a second such Record.
\<close>

theorem parse_input_blank_row:
  assumes "\<not> HAS_PANDAS E" "py_lower (path_suffix p) = ''.csv''"
  shows "(open_text E p = Inr blank_row_csv \<longrightarrow>
            parse_input E (PStr p) = Inr (PList [PDict [(PStr ''x'', PNone)]]))
       \<and> (open_text E p = Inr quoted_empty_csv \<longrightarrow>
            parse_input E (PStr p)
              = Inr (PList [PDict [(PStr ''x'', PNone)], PDict [(PStr ''x'', PNone)]]))"
  using assms by (simp add: parse_input_plain_csv read_blank_row_csv read_quoted_empty_csv)

theorem parse_input_blank_row_witness:
  "parse_input (bare_runtime blank_row_csv server_error after_midnight) (PStr ''votes.csv'')
     = Inr (PList [PDict [(PStr ''x'', PNone)]])
   \<and> parse_input (bare_runtime quoted_empty_csv server_error after_midnight) (PStr ''votes.csv'')
     = Inr (PList [PDict [(PStr ''x'', PNone)], PDict [(PStr ''x'', PNone)]])"
proof -
  have a: "\<not> HAS_PANDAS (bare_runtime c server_error after_midnight)"
      "open_text (bare_runtime c server_error after_midnight) ''votes.csv'' = Inr c" for c
    by (simp_all add: bare_runtime_def)
  from parse_input_blank_row[OF a(1) suffix_votes_csv, of blank_row_csv]
    parse_input_blank_row[OF a(1) suffix_votes_csv, of quoted_empty_csv]
  show ?thesis by (simp add: a(2))
qed

text \<open>
  The claim as worded expects a Record for the blank line as well, two in all; the
  result has one.
\<close>

theorem blank_row_yields_no_record:
  "parse_input (bare_runtime blank_row_csv server_error after_midnight) (PStr ''votes.csv'')
     \<noteq> Inr (PList [PDict [(PStr ''x'', PNone)], PDict [(PStr ''x'', PNone)]])
   \<and> parse_input (bare_runtime blank_row_csv server_error after_midnight) (PStr ''votes.csv'')
     = Inr (PList [PDict [(PStr ''x'', PNone)]])"
proof -
  have "parse_input (bare_runtime blank_row_csv server_error after_midnight) (PStr ''votes.csv'')
     = map_sum id PList (read_csv_text (bare_runtime blank_row_csv server_error after_midnight) blank_row_csv)"
    by (rule parse_input_plain_csv) (simp_all add: bare_runtime_def suffix_votes_csv)
  then show ?thesis by (simp add: read_blank_row_csv)
qed

section \<open>The client configuration\<close>

text \<open>
  Claim C6. For every base address given to the constructor, the stored address is
  the given one without its trailing slashes, followed by \<^verbatim>\<open>/api/v1\<close> unless it ends
  with it already; so it always ends with \<^verbatim>\<open>/api/v1\<close>. No sequence of calls of the
  six operations, in any runtimes, changes the client object.
\<close>

theorem base_url_versioned:
  fixes key base calls
  defines "c \<equiv> GrandJuryClient_init key base"
  shows "\<exists>s n. base = s @ replicate n (CHR ''/'') \<and> (s = [] \<or> last s \<noteq> CHR ''/'')
            \<and> base_url c = (if suffix ''/api/v1'' s then s else s @ ''/api/v1'')
            \<and> suffix ''/api/v1'' (base_url c)
            \<and> suffix ''/api/v1'' (base_url (client_after c calls))
            \<and> client_after c calls = c"
proof -
  let ?s = "rstrip (CHR ''/'') base"
  obtain n where n: "base = ?s @ replicate n (CHR ''/'')"
    using rstrip_decompose by blast
  have u: "base_url c = (if suffix ''/api/v1'' ?s then ?s else ?s @ ''/api/v1'')"
    by (simp add: c_def GrandJuryClient_init_def Let_def endswith_suffix)
  then have v: "suffix ''/api/v1'' (base_url c)"
    by (simp add: suffix_def)
  from n rstrip_last[of "CHR ''/''" base] u v show ?thesis
    by (auto simp: client_after_same)
qed

theorem base_url_versioned_witness:
  "base_url (GrandJuryClient_init None ''http://localhost:8000//'') = ''http://localhost:8000/api/v1''
   \<and> base_url (GrandJuryClient_init None API_BASE_URL) = API_BASE_URL
   \<and> client_after (GrandJuryClient_init None ''http://localhost:8000//'')
         [(bare_runtime [] server_error after_midnight,
             VoteHistogram (PList []) (PInt 60) (PBool True)),
          (bare_runtime [] score_reply after_midnight,
             EvaluateModel default_previous_score PNone PNone PNone)]
       = GrandJuryClient_init None ''http://localhost:8000//''"
proof -
  have "base_url (GrandJuryClient_init None ''http://localhost:8000//'') = ''http://localhost:8000/api/v1''"
    by (simp add: GrandJuryClient_init_def rstrip_def endswith_def)
  moreover have "base_url (GrandJuryClient_init None API_BASE_URL) = API_BASE_URL"
    by (simp add: GrandJuryClient_init_def rstrip_def endswith_def API_BASE_URL_def)
  moreover from base_url_versioned[of "''http://localhost:8000//''" None
      "[(bare_runtime [] server_error after_midnight,
           VoteHistogram (PList []) (PInt 60) (PBool True)),
        (bare_runtime [] score_reply after_midnight,
           EvaluateModel default_previous_score PNone PNone PNone)]"]
  have "client_after (GrandJuryClient_init None ''http://localhost:8000//'')
         [(bare_runtime [] server_error after_midnight,
             VoteHistogram (PList []) (PInt 60) (PBool True)),
          (bare_runtime [] score_reply after_midnight,
             EvaluateModel default_previous_score PNone PNone PNone)]
       = GrandJuryClient_init None ''http://localhost:8000//''"
    by blast
  ultimately show ?thesis by simp
qed

section \<open>The evaluate operation and its legacy wrapper\<close>

text \<open>
  Claim C7. For prediction and reference lists of equal length, the legacy
  \<^verbatim>\<open>evaluate_model\<close> builds a vote list of the same length with \<^verbatim>\<open>1.0\<close> where the
  prediction equals the reference and \<^verbatim>\<open>0.0\<close> elsewhere, a reputation list of as
  many \<^verbatim>\<open>1.0\<close>, and its result is that of the client's evaluate operation called with
  exactly these two lists, on a client made from the given key.
\<close>

theorem legacy_evaluate_model_votes:
  assumes "length ps = length rs"
  shows "length (agreement_votes eq ps rs) = length ps
       \<and> (\<forall>i < length ps. agreement_votes eq ps rs ! i
              = PFloat (Finite (if eq (ps ! i) (rs ! i) then 1 else 0)))
       \<and> legacy_evaluate_model E eq (PList ps) (PList rs) key =
           evaluate_model E (GrandJuryClient_init key API_BASE_URL) default_previous_score PNone
             (PList (agreement_votes eq ps rs))
             (PList (replicate (length ps) (PFloat (Finite 1))))"
proof (intro conjI allI impI)
  show "length (agreement_votes eq ps rs) = length ps"
    using assms by (simp add: agreement_votes_length)
next
  fix i assume "i < length ps"
  then show "agreement_votes eq ps rs ! i = PFloat (Finite (if eq (ps ! i) (rs ! i) then 1 else 0))"
    using assms by (intro agreement_votes_nth) simp_all
next
  show "legacy_evaluate_model E eq (PList ps) (PList rs) key =
      evaluate_model E (GrandJuryClient_init key API_BASE_URL) default_previous_score PNone
        (PList (agreement_votes eq ps rs)) (PList (replicate (length ps) (PFloat (Finite 1))))"
    using assms by (simp add: legacy_evaluate_model_lists)
qed

theorem legacy_evaluate_model_votes_witness:
  "length [PStr ''a'', PStr ''b''] = length [PStr ''a'', PStr ''c'']
   \<and> agreement_votes (=) [PStr ''a'', PStr ''b''] [PStr ''a'', PStr ''c'']
       = [PFloat (Finite 1), PFloat (Finite 0)]
   \<and> legacy_evaluate_model (bare_runtime [] score_reply after_midnight) (=)
        (PList [PStr ''a'', PStr ''b'']) (PList [PStr ''a'', PStr ''c'']) None
      = evaluate_model (bare_runtime [] score_reply after_midnight)
          (GrandJuryClient_init None API_BASE_URL) default_previous_score PNone
          (PList [PFloat (Finite 1), PFloat (Finite 0)])
          (PList [PFloat (Finite 1), PFloat (Finite 1)])"
proof -
  have l: "length [PStr ''a'', PStr ''b''] = length [PStr ''a'', PStr ''c'']" by simp
  have v: "agreement_votes (=) [PStr ''a'', PStr ''b''] [PStr ''a'', PStr ''c'']
      = [PFloat (Finite 1), PFloat (Finite 0)]"
    by (simp add: agreement_votes_def)
  have r: "replicate (length [PStr ''a'', PStr ''b'']) (PFloat (Finite 1))
      = [PFloat (Finite 1), PFloat (Finite 1)]"
    by (simp add: numeral_2_eq_2)
  from legacy_evaluate_model_votes[OF l, of "(=)" "bare_runtime [] score_reply after_midnight" None]
  show ?thesis unfolding v r by simp
qed

text \<open>
  Claim C8. When the evaluate operation is called with \<^verbatim>\<open>votes\<close> or \<^verbatim>\<open>reputations\<close>
  unset, the payload it dispatches to \<^verbatim>\<open>evaluate\<close> has the empty list under that key;
  and when \<^verbatim>\<open>previous_timestamp\<close> is unset, the payload has under that key the
  ISO 8601 text of a valid datetime that lies 3600 seconds before the clock's
  reading, and reading that text back gives this datetime. The clock reads a valid
  datetime past the first hour of year 1.
\<close>

theorem evaluate_model_defaults:
  assumes v: "valid_datetime (datetime_now E)"
      and nf: "\<not> (year (datetime_now E) = 1 \<and> month (datetime_now E) = 1
                  \<and> day (datetime_now E) = 1 \<and> hour (datetime_now E) = 0)"
  shows "\<exists>payload.
           evaluate_payload E score ts votes reps = Inr payload
         \<and> evaluate_model E self score ts votes reps = make_request E self ''evaluate'' payload
         \<and> (votes = PNone \<longrightarrow> payload_get payload ''votes'' = Some (PList []))
         \<and> (reps = PNone \<longrightarrow> payload_get payload ''reputations'' = Some (PList []))
         \<and> (ts = PNone \<longrightarrow>
               (\<exists>dt. valid_datetime dt
                  \<and> microseconds_of dt = microseconds_of (datetime_now E) - 3600000000
                  \<and> fromisoformat (isoformat dt) = Some dt
                  \<and> payload_get payload ''previous_timestamp'' = Some (PStr (isoformat dt))))"
proof (cases "ts = PNone")
  case True
  from sub_one_hour_correct[OF v nf] obtain dt where dt: "sub_one_hour (datetime_now E) = Inr dt"
    "valid_datetime dt" "microseconds_of dt = microseconds_of (datetime_now E) - 3600000000"
    by blast
  let ?p = "PDict [(PStr ''previous_score'', score), (PStr ''previous_timestamp'', PStr (isoformat dt)),
                 (PStr ''votes'', if votes = PNone then PList [] else votes),
                 (PStr ''reputations'', if reps = PNone then PList [] else reps)]"
  have p: "evaluate_payload E score ts votes reps = Inr ?p"
    using True evaluate_payload_clock[OF dt(1)] by simp
  moreover have "evaluate_model E self score ts votes reps = make_request E self ''evaluate'' ?p"
    by (simp add: evaluate_model_def p)
  moreover have "payload_get ?p ''previous_timestamp'' = Some (PStr (isoformat dt))"
    by (simp add: payload_get_def)
  moreover have "votes = PNone \<longrightarrow> payload_get ?p ''votes'' = Some (PList [])"
    by (simp add: payload_get_def)
  moreover have "reps = PNone \<longrightarrow> payload_get ?p ''reputations'' = Some (PList [])"
    by (simp add: payload_get_def)
  ultimately show ?thesis using dt(2,3) isoformat_roundtrip[OF dt(2)] by blast
next
  case False
  let ?p = "PDict [(PStr ''previous_score'', score), (PStr ''previous_timestamp'', ts),
                 (PStr ''votes'', if votes = PNone then PList [] else votes),
                 (PStr ''reputations'', if reps = PNone then PList [] else reps)]"
  have p: "evaluate_payload E score ts votes reps = Inr ?p"
    using False by (rule evaluate_payload_given)
  moreover have "evaluate_model E self score ts votes reps = make_request E self ''evaluate'' ?p"
    by (simp add: evaluate_model_def p)
  moreover have "votes = PNone \<longrightarrow> payload_get ?p ''votes'' = Some (PList [])"
    by (simp add: payload_get_def)
  moreover have "reps = PNone \<longrightarrow> payload_get ?p ''reputations'' = Some (PList [])"
    by (simp add: payload_get_def)
  ultimately show ?thesis using False by blast
qed

theorem evaluate_model_defaults_witness:
  "valid_datetime after_midnight
   \<and> (\<exists>dt. valid_datetime dt
          \<and> microseconds_of dt = microseconds_of after_midnight - 3600000000
          \<and> isoformat dt = ''2024-02-29T23:30:15.250000''
          \<and> fromisoformat ''2024-02-29T23:30:15.250000'' = Some dt
          \<and> evaluate_payload (bare_runtime [] score_reply after_midnight)
                default_previous_score PNone PNone PNone
              = Inr (PDict [(PStr ''previous_score'', PFloat (Finite 0)),
                            (PStr ''previous_timestamp'', PStr (isoformat dt)),
                            (PStr ''votes'', PList []),
                            (PStr ''reputations'', PList [])]))"
proof -
  let ?E = "bare_runtime [] score_reply after_midnight"
  let ?c = "GrandJuryClient_init None API_BASE_URL"
  let ?stamp = "''2024-02-29T23:30:15.250000''"
  have now: "datetime_now ?E = after_midnight" by (simp add: bare_runtime_def)
  have v: "valid_datetime (datetime_now ?E)" by (simp add: now valid_after_midnight)
  have nf: "\<not> (year (datetime_now ?E) = 1 \<and> month (datetime_now ?E) = 1
                  \<and> day (datetime_now ?E) = 1 \<and> hour (datetime_now ?E) = 0)"
    unfolding now by (simp add: after_midnight_def)
  have p: "evaluate_payload ?E default_previous_score PNone PNone PNone
      = Inr (PDict [(PStr ''previous_score'', PFloat (Finite 0)),
                    (PStr ''previous_timestamp'', PStr ?stamp),
                    (PStr ''votes'', PList []), (PStr ''reputations'', PList [])])"
    by (simp add: evaluate_payload_def now sub_one_hour_after_midnight isoformat_leap_day
          default_previous_score_def)
  from evaluate_model_defaults[OF v nf, of default_previous_score PNone PNone PNone ?c]
  obtain payload dt where
      e: "evaluate_payload ?E default_previous_score PNone PNone PNone = Inr payload"
    and d: "valid_datetime dt" "microseconds_of dt = microseconds_of (datetime_now ?E) - 3600000000"
      "payload_get payload ''previous_timestamp'' = Some (PStr (isoformat dt))"
    and reread: "fromisoformat (isoformat dt) = Some dt"
    by auto
  from e p have "payload = PDict [(PStr ''previous_score'', PFloat (Finite 0)),
                    (PStr ''previous_timestamp'', PStr ?stamp),
                    (PStr ''votes'', PList []), (PStr ''reputations'', PList [])]"
    by simp
  with d(3) have "isoformat dt = ?stamp" by (simp add: payload_get_def)
  with d(1,2) reread p now valid_after_midnight show ?thesis by auto
qed

text \<open>
  Claim C10. For prediction and reference lists of any two lengths, the legacy
  \<^verbatim>\<open>evaluate_model\<close> cuts both to the shorter length without raising: the votes and
  the reputations it passes to the evaluate operation both have the smaller of the
  two lengths, the votes are those of the two lists cut to that length, and the
  whole call gives what the same call on the cut lists gives.
\<close>

theorem legacy_evaluate_model_truncates:
  fixes ps rs :: "pyval list"
  defines "n \<equiv> min (length ps) (length rs)"
  shows "length (agreement_votes eq ps rs) = n
       \<and> length (replicate n (PFloat (Finite 1))) = n
       \<and> agreement_votes eq ps rs = agreement_votes eq (take n ps) (take n rs)
       \<and> legacy_evaluate_model E eq (PList ps) (PList rs) key =
           evaluate_model E (GrandJuryClient_init key API_BASE_URL) default_previous_score PNone
             (PList (agreement_votes eq ps rs)) (PList (replicate n (PFloat (Finite 1))))
       \<and> legacy_evaluate_model E eq (PList ps) (PList rs) key =
           legacy_evaluate_model E eq (PList (take n ps)) (PList (take n rs)) key"
proof (intro conjI)
  show len: "length (agreement_votes eq ps rs) = n"
    by (simp add: n_def agreement_votes_length)
  show "length (replicate n (PFloat (Finite 1))) = n" by simp
  show cut: "agreement_votes eq ps rs = agreement_votes eq (take n ps) (take n rs)"
    using len by (simp add: agreement_votes_take)
  show whole: "legacy_evaluate_model E eq (PList ps) (PList rs) key =
      evaluate_model E (GrandJuryClient_init key API_BASE_URL) default_previous_score PNone
        (PList (agreement_votes eq ps rs)) (PList (replicate n (PFloat (Finite 1))))"
    unfolding n_def by (rule legacy_evaluate_model_lists)
  have "min (length (take n ps)) (length (take n rs)) = n"
    by (simp add: n_def)
  then have "legacy_evaluate_model E eq (PList (take n ps)) (PList (take n rs)) key =
      evaluate_model E (GrandJuryClient_init key API_BASE_URL) default_previous_score PNone
        (PList (agreement_votes eq (take n ps) (take n rs))) (PList (replicate n (PFloat (Finite 1))))"
    by (simp only: legacy_evaluate_model_lists)
  with whole cut show "legacy_evaluate_model E eq (PList ps) (PList rs) key =
      legacy_evaluate_model E eq (PList (take n ps)) (PList (take n rs)) key"
    by simp
qed

theorem legacy_evaluate_model_truncates_witness:
  "agreement_votes (=) [PStr ''a'', PStr ''b'', PStr ''c''] [PStr ''a''] = [PFloat (Finite 1)]
   \<and> legacy_evaluate_model (bare_runtime [] score_reply after_midnight) (=)
        (PList [PStr ''a'', PStr ''b'', PStr ''c'']) (PList [PStr ''a'']) None
      = legacy_evaluate_model (bare_runtime [] score_reply after_midnight) (=)
        (PList [PStr ''a'']) (PList [PStr ''a'']) None
   \<and> legacy_evaluate_model (bare_runtime [] score_reply after_midnight) (=)
        (PList [PStr ''a'', PStr ''b'', PStr ''c'']) (PList [PStr ''a'']) None
      = Inr (PDict [(PStr ''score'', PFloat (Finite (9 / 10)))])"
proof -
  let ?ps = "[PStr ''a'', PStr ''b'', PStr ''c'']" and ?rs = "[PStr ''a'']"
  have v: "agreement_votes (=) ?ps ?rs = [PFloat (Finite 1)]"
    by (simp add: agreement_votes_def)
  have m: "min (length ?ps) (length ?rs) = 1" by simp
  note t = legacy_evaluate_model_truncates[of "(=)" ?ps ?rs
      "bare_runtime [] score_reply after_midnight" None, unfolded m]
  note whole = t[THEN conjunct2, THEN conjunct2, THEN conjunct2, THEN conjunct1]
  note same = t[THEN conjunct2, THEN conjunct2, THEN conjunct2, THEN conjunct2]
  have cut: "legacy_evaluate_model (bare_runtime [] score_reply after_midnight) (=)
        (PList ?ps) (PList ?rs) None
      = legacy_evaluate_model (bare_runtime [] score_reply after_midnight) (=)
        (PList [PStr ''a'']) (PList [PStr ''a'']) None"
    using same by simp
  have "legacy_evaluate_model (bare_runtime [] score_reply after_midnight) (=)
        (PList ?ps) (PList ?rs) None
      = Inr (PDict [(PStr ''score'', PFloat (Finite (9 / 10)))])"
    unfolding whole by (rule evaluate_model_score_reply)
  with cut v show ?thesis by simp
qed

end
